theory Spec2Isabelle
  imports Complex_Main "HOL-Library.Multiset" "HOL-Library.Sublist"
    "HOL-Library.AList" "HOL-Library.Char_ord" "HOL-Library.List_Lexorder"
begin

section \<open>The dataset container of PDBData/PDBDataset.py\<close>

text \<open>
  \<^verbatim>\<open>PDBDataset\<close> stores its molecules in the Python list \<^verbatim>\<open>self.mols\<close> and carries the
  flag \<^verbatim>\<open>self.info\<close>, which only switches progress printing on. The molecule class
  \<^verbatim>\<open>PDBMolecule\<close> is imported from another module; the container is therefore polymorphic
  in the molecule type \<open>'m\<close>, and every method of \<^verbatim>\<open>PDBMolecule\<close> that the container calls
  is a parameter of the function that embeds the calling method. Molecules are values: the
  container is taken to own each record once, so that a mutation of the record at one
  position is the replacement of that list element. Progress printing has no effect on
  the container and is left out.
\<close>

datatype error =
    IndexError
  | KeyError string
  | FileExistsError
  | NotADirectoryError
  | IsADirectoryError
  | FileNotFoundError
  | OtherError string

record 'm PDBDataset =
  mols :: "'m list"
  info :: bool

definition init :: "'m PDBDataset" where
  "init = \<lparr>mols = [], info = True\<rparr>"

definition len :: "'m PDBDataset \<Rightarrow> nat" where
  "len ds = length (mols ds)"

text \<open>
  The subscript \<^verbatim>\<open>self.mols[idx]\<close> of a Python list: positions from the front for
  \<open>0 \<le> idx\<close>, from the back for \<open>idx < 0\<close>, and \<^verbatim>\<open>IndexError\<close> beyond either end.
\<close>

definition py_index :: "'a list \<Rightarrow> int \<Rightarrow> error + 'a" where
  "py_index xs i =
     (if 0 \<le> i \<and> i < int (length xs) then Inr (xs ! nat i)
      else if i < 0 \<and> - int (length xs) \<le> i then Inr (xs ! nat (int (length xs) + i))
      else Inl IndexError)"

definition getitem :: "'m PDBDataset \<Rightarrow> int \<Rightarrow> error + 'm" where
  "getitem ds idx = py_index (mols ds) idx"

definition append :: "'m PDBDataset \<Rightarrow> 'm \<Rightarrow> 'm PDBDataset" where
  "append ds mol = ds\<lparr>mols := mols ds @ [mol]\<rparr>"

section \<open>The molecule record, as far as the specification describes it\<close>

text \<open>
  Modelled from the spec: \<^verbatim>\<open>PDBData/PDBMolecule.py\<close> is not among the sources. Section 3 of
  the specification describes a conformation as one geometry, a reference energy, a
  reference force with one 3-vector per atom, and computed energies and forces per named
  force-field label; a molecule record owns a sequence of conformations and the sequence
  of its atomic numbers. Floating-point numbers are idealised as reals.
\<close>

type_synonym vec3 = "real \<times> real \<times> real"

record conformation =
  geometry :: "vec3 list"
  energy :: real
  force :: "vec3 list"
  computed :: "(string \<times> real \<times> vec3 list) list"

record molecule =
  elements :: "int list"
  conformations :: "conformation list"

section \<open>The conformation-window filter\<close>

text \<open>
  Modelled from the spec: \<^verbatim>\<open>PDBMolecule.filter_confs\<close> is not among the sources. Section 4.3:
  the minimum is taken over the molecule's own reference energies; a conformation is kept
  iff its reference energy exceeds that minimum by at most \<open>max_energy\<close> and, when a force
  threshold is given, the largest magnitude of a force component is within the threshold;
  the result is false iff fewer than 2 conformations remain. For a molecule without
  conformations no conformation is tested, and the value that stands for the minimum
  there is never used.
\<close>

definition min_energy :: "conformation list \<Rightarrow> real" where
  "min_energy cs = (case cs of [] \<Rightarrow> 0 | c # rest \<Rightarrow> fold (\<lambda>c' acc. min (energy c') acc) rest (energy c))"

definition max_force_component :: "conformation \<Rightarrow> real" where
  "max_force_component c =
     fold (\<lambda>(x, y, z) acc. max (max \<bar>x\<bar> (max \<bar>y\<bar> \<bar>z\<bar>)) acc) (force c) 0"

definition keep_conformation :: "real \<Rightarrow> real option \<Rightarrow> real \<Rightarrow> conformation \<Rightarrow> bool" where
  "keep_conformation max_energy max_force e_min c =
     (energy c - e_min \<le> max_energy \<and>
      (case max_force of None \<Rightarrow> True | Some mf \<Rightarrow> max_force_component c \<le> mf))"

definition mol_filter_confs :: "real \<Rightarrow> real option \<Rightarrow> molecule \<Rightarrow> bool \<times> molecule" where
  "mol_filter_confs max_energy max_force mol =
     (let e_min = min_energy (conformations mol);
          kept = filter (keep_conformation max_energy max_force e_min) (conformations mol);
          mol' = mol\<lparr>conformations := kept\<rparr>
      in (2 \<le> length kept, mol'))"

text \<open>
  \<^verbatim>\<open>PDBDataset.filter_confs\<close> first runs the per-molecule filter over \<^verbatim>\<open>self.mols\<close>, which
  prunes each molecule in place and appends the returned flag to \<^verbatim>\<open>keep\<close>; then it
  replaces the list's contents by the molecules whose position carries a true flag. The
  parameter \<open>mfc\<close> stands for \<^verbatim>\<open>PDBMolecule.filter_confs\<close>: it returns the flag and the
  pruned molecule; by section 7 of the specification a filter never raises. The loop
  carries \<^verbatim>\<open>keep\<close> and the molecules already visited.
\<close>

fun filter_confs_loop ::
  "('m \<Rightarrow> bool \<times> 'm) \<Rightarrow> 'm list \<Rightarrow> bool list \<Rightarrow> 'm list \<Rightarrow> bool list \<times> 'm list" where
  "filter_confs_loop mfc [] keep visited = (keep, visited)"
| "filter_confs_loop mfc (mol # rest) keep visited =
     (case mfc mol of (more_than2left, mol') \<Rightarrow>
        filter_confs_loop mfc rest (keep @ [more_than2left]) (visited @ [mol']))"

text \<open>
  The comprehension \<^verbatim>\<open>[mol for i, mol in enumerate(self.mols) if keep[i]]\<close>. Both filters
  call it with one flag per molecule, so that every subscript \<^verbatim>\<open>keep[i]\<close> is in range.
\<close>

definition compact :: "bool list \<Rightarrow> 'm list \<Rightarrow> 'm list" where
  "compact keep ms = map snd (filter (\<lambda>(i, mol). keep ! i) (enumerate 0 ms))"

definition filter_confs ::
  "(real \<Rightarrow> real option \<Rightarrow> 'm \<Rightarrow> bool \<times> 'm) \<Rightarrow> 'm PDBDataset \<Rightarrow> real \<Rightarrow> real option
   \<Rightarrow> 'm PDBDataset" where
  "filter_confs mfc ds max_energy max_force =
     (case filter_confs_loop (mfc max_energy max_force) (mols ds) [] [] of
        (keep, ms) \<Rightarrow> ds\<lparr>mols := compact keep ms\<rparr>)"

section \<open>The validity filter\<close>

text \<open>
  \<^verbatim>\<open>PDBDataset.filter_validity\<close> asks \<^verbatim>\<open>PDBMolecule.conf_check\<close> (the parameter \<open>chk\<close>) for
  every molecule, appends the answer to \<^verbatim>\<open>keep\<close>, counts the rejected molecules in
  \<^verbatim>\<open>removed\<close> (a number that is only printed), and then compacts the list as above. The
  check is a statistical test (section 4.5 of the specification) and is taken to read the
  molecule only.
\<close>

fun filter_validity_loop ::
  "('m \<Rightarrow> bool) \<Rightarrow> 'm list \<Rightarrow> bool list \<Rightarrow> nat \<Rightarrow> bool list \<times> nat" where
  "filter_validity_loop chk [] keep removed = (keep, removed)"
| "filter_validity_loop chk (mol # rest) keep removed =
     (let valid = chk mol
      in filter_validity_loop chk rest (keep @ [valid]) (removed + (if valid then 0 else 1)))"

definition filter_validity ::
  "('ff \<Rightarrow> real \<times> real \<Rightarrow> 'm \<Rightarrow> bool) \<Rightarrow> 'm PDBDataset \<Rightarrow> 'ff \<Rightarrow> real \<times> real \<Rightarrow> 'm PDBDataset" where
  "filter_validity chk ds forcefield sigmas =
     (case filter_validity_loop (chk forcefield sigmas) (mols ds) [] 0 of
        (keep, removed) \<Rightarrow> ds\<lparr>mols := compact keep (mols ds)\<rparr>)"

text \<open>
  Modelled from the spec: \<^verbatim>\<open>PDBMolecule.conf_check\<close> is not among the sources. Section 4.5:
  a molecule is valid only if both the energy criterion (with \<open>sigma_energy\<close>) and the force
  criterion (with \<open>sigma_force\<close>) pass. The two criteria compare root-mean-square residuals
  of floating-point arrays and are parameters here.
\<close>

definition conf_check ::
  "('ff \<Rightarrow> real \<Rightarrow> 'm \<Rightarrow> bool) \<Rightarrow> ('ff \<Rightarrow> real \<Rightarrow> 'm \<Rightarrow> bool) \<Rightarrow> 'ff \<Rightarrow> real \<times> real \<Rightarrow> 'm \<Rightarrow> bool" where
  "conf_check energy_criterion force_criterion forcefield sigmas mol =
     (energy_criterion forcefield (fst sigmas) mol \<and> force_criterion forcefield (snd sigmas) mol)"

section \<open>Parametrization\<close>

text \<open>
  \<^verbatim>\<open>PDBDataset.parametrize\<close> calls \<^verbatim>\<open>mol.parametrize\<close> on every molecule in turn, inside no
  \<^verbatim>\<open>try\<close>. The parameter \<open>mp\<close> stands for \<^verbatim>\<open>PDBMolecule.parametrize\<close>: it returns the
  exception it raised, if any, and the molecule as the call left it. The result of the
  container's method is the exception that reached the caller, if any, and the container
  as it is then.
\<close>

fun parametrize_loop ::
  "('m \<Rightarrow> error option \<times> 'm) \<Rightarrow> 'm list \<Rightarrow> 'm list \<Rightarrow> error option \<times> 'm list" where
  "parametrize_loop mp [] visited = (None, visited)"
| "parametrize_loop mp (mol # rest) visited =
     (case mp mol of
        (Some e, mol') \<Rightarrow> (Some e, visited @ mol' # rest)
      | (None, mol') \<Rightarrow> parametrize_loop mp rest (visited @ [mol']))"

definition parametrize ::
  "('ff \<Rightarrow> string \<Rightarrow> 'gc option \<Rightarrow> 'm \<Rightarrow> error option \<times> 'm) \<Rightarrow> 'm PDBDataset \<Rightarrow> 'ff \<Rightarrow> string
   \<Rightarrow> 'gc option \<Rightarrow> error option \<times> 'm PDBDataset" where
  "parametrize mp ds forcefield suffix' get_charges =
     (case parametrize_loop (mp forcefield suffix' get_charges) (mols ds) [] of
        (raised, ms) \<Rightarrow> (raised, ds\<lparr>mols := ms\<rparr>))"

text \<open>
  Modelled from the spec: \<^verbatim>\<open>PDBMolecule.parametrize\<close> is not among the sources. Section 4.4:
  the scorer consumes the molecule's topology (here its elements) and each stored
  geometry and returns an energy and per-atom forces, which are stored under the label
  name, overwriting an earlier entry of that name. Section 7: a scorer failure is
  surfaced and leaves the erroring molecule untouched.
\<close>

fun score_all ::
  "(int list \<Rightarrow> vec3 list \<Rightarrow> error + real \<times> vec3 list) \<Rightarrow> int list \<Rightarrow> conformation list
   \<Rightarrow> error + (real \<times> vec3 list) list" where
  "score_all scorer els [] = Inr []"
| "score_all scorer els (c # cs) =
     (case scorer els (geometry c) of
        Inl e \<Rightarrow> Inl e
      | Inr r \<Rightarrow> (case score_all scorer els cs of Inl e \<Rightarrow> Inl e | Inr rs \<Rightarrow> Inr (r # rs)))"

definition mol_parametrize ::
  "('gc option \<Rightarrow> int list \<Rightarrow> vec3 list \<Rightarrow> error + real \<times> vec3 list) \<Rightarrow> string \<Rightarrow> 'gc option
   \<Rightarrow> molecule \<Rightarrow> error option \<times> molecule" where
  "mol_parametrize scorer label get_charges mol =
     (case score_all (scorer get_charges) (elements mol) (conformations mol) of
        Inl e \<Rightarrow> (Some e, mol)
      | Inr rs \<Rightarrow>
          (None, mol\<lparr>conformations :=
             map (\<lambda>(c, r). c\<lparr>computed := AList.update label r (computed c)\<rparr>)
               (zip (conformations mol) rs)\<rparr>))"

section \<open>Graph export\<close>

text \<open>
  \<^verbatim>\<open>PDBDataset.to_dgl\<close>: the index list defaults to all positions; each index is looked up
  with \<^verbatim>\<open>self.mols[idx]\<close> and converted by \<^verbatim>\<open>PDBMolecule.to_dgl\<close> (the parameter \<open>mtd\<close>); the
  list of graphs is returned as it is when no split is requested, and is handed to
  \<^verbatim>\<open>dgl.data.utils.split_dataset\<close> (the parameter \<open>split_dataset\<close>) with the seed otherwise.
  An index out of range raises; the two library calls are taken to return.
\<close>

datatype ('g, 's) exported = Graphs "'g list" | Splits 's

fun get_graphs :: "('m \<Rightarrow> 'g) \<Rightarrow> 'm list \<Rightarrow> int list \<Rightarrow> error + 'g list" where
  "get_graphs mtd ms [] = Inr []"
| "get_graphs mtd ms (idx # idxs) =
     (case py_index ms idx of
        Inl e \<Rightarrow> Inl e
      | Inr mol \<Rightarrow>
          (case get_graphs mtd ms idxs of Inl e \<Rightarrow> Inl e | Inr gs \<Rightarrow> Inr (mtd mol # gs)))"

definition to_dgl ::
  "('m \<Rightarrow> 'g) \<Rightarrow> ('g list \<Rightarrow> real list \<Rightarrow> int \<Rightarrow> 's) \<Rightarrow> 'm PDBDataset \<Rightarrow> int list option
   \<Rightarrow> real list option \<Rightarrow> int \<Rightarrow> error + ('g, 's) exported" where
  "to_dgl mtd split_dataset ds idxs split seed =
     (let idxs' = (case idxs of None \<Rightarrow> map int [0..<len ds] | Some given \<Rightarrow> given)
      in case get_graphs mtd (mols ds) idxs' of
           Inl e \<Rightarrow> Inl e
         | Inr glist \<Rightarrow>
             (case split of
                None \<Rightarrow> Inr (Graphs glist)
              | Some fracs \<Rightarrow> Inr (Splits (split_dataset glist fracs seed))))"

section \<open>Ingestion of a bulk archive\<close>

text \<open>
  An opened archive is the list of its named groups in the order of \<^verbatim>\<open>f.keys()\<close>; a group
  maps array names to arrays, and reading a missing name raises. The parameter
  \<open>from_arrays\<close> stands for the rest of the \<^verbatim>\<open>try\<close> body: the conversion to numpy arrays,
  the unit normalisation, the subtraction of the mean energy and \<^verbatim>\<open>PDBMolecule.from_xyz\<close>,
  any of which may raise. The unit arguments \<^verbatim>\<open>hdf5_distance\<close>, \<^verbatim>\<open>hdf5_energy\<close> and
  \<^verbatim>\<open>hdf5_force\<close> of \<^verbatim>\<open>from_hdf5\<close> are used by these conversions only and belong to
  \<open>from_arrays\<close>. The counters \<^verbatim>\<open>counter\<close> and \<^verbatim>\<open>failed_counter\<close> are locals of
  \<^verbatim>\<open>from_hdf5\<close> that are printed and not returned; \<open>from_hdf5_run\<close> returns them together
  with the container, \<open>from_hdf5\<close> returns the container as the source does.
\<close>

type_synonym 'a group = "(string \<times> 'a) list"

definition lookup :: "'a group \<Rightarrow> string \<Rightarrow> error + 'a" where
  "lookup g key = (case map_of g key of None \<Rightarrow> Inl (KeyError key) | Some a \<Rightarrow> Inr a)"

definition read_group ::
  "('a \<Rightarrow> 'a \<Rightarrow> 'a \<Rightarrow> 'a \<Rightarrow> error + 'm) \<Rightarrow> string \<Rightarrow> string \<Rightarrow> string \<Rightarrow> string \<Rightarrow> 'a group
   \<Rightarrow> error + 'm" where
  "read_group from_arrays element_key energy_key xyz_key grad_key g =
     (case lookup g element_key of Inl e \<Rightarrow> Inl e | Inr els \<Rightarrow>
      (case lookup g energy_key of Inl e \<Rightarrow> Inl e | Inr energies \<Rightarrow>
       (case lookup g xyz_key of Inl e \<Rightarrow> Inl e | Inr xyz \<Rightarrow>
        (case lookup g grad_key of Inl e \<Rightarrow> Inl e | Inr grads \<Rightarrow>
           from_arrays els xyz energies grads))))"

record 'm ingestion =
  obj :: "'m PDBDataset"
  counter :: nat
  failed_counter :: nat

fun from_hdf5_loop ::
  "('g \<Rightarrow> error + 'm) \<Rightarrow> int option \<Rightarrow> bool \<Rightarrow> (string \<times> 'g) list \<Rightarrow> 'm ingestion
   \<Rightarrow> error + 'm ingestion" where
  "from_hdf5_loop rd n_max skip_errs [] st = Inr st"
| "from_hdf5_loop rd n_max skip_errs ((name, g) # rest) st =
     (if (case n_max of None \<Rightarrow> False | Some n \<Rightarrow> int (len (obj st)) > n) then Inr st
      else
        (case rd g of
           Inr mol \<Rightarrow>
             from_hdf5_loop rd n_max skip_errs rest
               (st\<lparr>obj := append (obj st) mol, counter := counter st + 1\<rparr>)
         | Inl e \<Rightarrow>
             (let st' = st\<lparr>failed_counter := failed_counter st + 1\<rparr>
              in if \<not> skip_errs then Inl e
                 else from_hdf5_loop rd n_max skip_errs rest st')))"

definition from_hdf5_run ::
  "('a \<Rightarrow> 'a \<Rightarrow> 'a \<Rightarrow> 'a \<Rightarrow> error + 'm) \<Rightarrow> (string \<times> 'a group) list \<Rightarrow> string \<Rightarrow> string \<Rightarrow> string
   \<Rightarrow> string \<Rightarrow> int option \<Rightarrow> bool \<Rightarrow> bool \<Rightarrow> error + 'm ingestion" where
  "from_hdf5_run from_arrays f element_key energy_key xyz_key grad_key n_max skip_errs info' =
     from_hdf5_loop (read_group from_arrays element_key energy_key xyz_key grad_key)
       n_max skip_errs f \<lparr>obj = init\<lparr>info := info'\<rparr>, counter = 0, failed_counter = 0\<rparr>"

definition from_hdf5 ::
  "('a \<Rightarrow> 'a \<Rightarrow> 'a \<Rightarrow> 'a \<Rightarrow> error + 'm) \<Rightarrow> (string \<times> 'a group) list \<Rightarrow> string \<Rightarrow> string \<Rightarrow> string
   \<Rightarrow> string \<Rightarrow> int option \<Rightarrow> bool \<Rightarrow> bool \<Rightarrow> error + 'm PDBDataset" where
  "from_hdf5 from_arrays f element_key energy_key xyz_key grad_key n_max skip_errs info' =
     (case from_hdf5_run from_arrays f element_key energy_key xyz_key grad_key n_max skip_errs info' of
        Inl e \<Rightarrow> Inl e
      | Inr st \<Rightarrow> Inr (obj st))"

section \<open>The per-molecule archives\<close>

text \<open>
  \<^verbatim>\<open>save_npz\<close> and \<^verbatim>\<open>load_npz\<close> act on the file system through \<^verbatim>\<open>os.path.exists\<close>,
  \<^verbatim>\<open>os.makedirs\<close>, \<^verbatim>\<open>Path.rglob\<close> and the archive files that \<^verbatim>\<open>PDBMolecule.compress\<close> writes
  and \<^verbatim>\<open>PDBMolecule.load\<close> reads. A path is the list of its components, the empty list being
  the root, which always exists; a file system is an association list from paths to
  directories and files, in the order in which a traversal meets them. An archive file
  holds a value of type \<open>'c\<close>.
\<close>

type_synonym path = "string list"

datatype 'c node = Dir | File 'c

type_synonym 'c filesystem = "(path \<times> 'c node) list"

definition path_exists :: "path \<Rightarrow> 'c filesystem \<Rightarrow> bool" where
  "path_exists p fs = (p = [] \<or> map_of fs p \<noteq> None)"

definition isdir :: "path \<Rightarrow> 'c filesystem \<Rightarrow> bool" where
  "isdir p fs = (p = [] \<or> map_of fs p = Some Dir)"

definition mkdir :: "path \<Rightarrow> 'c filesystem \<Rightarrow> error + 'c filesystem" where
  "mkdir p fs =
     (if path_exists p fs then Inl FileExistsError
      else if isdir (butlast p) fs then Inr (fs @ [(p, Dir)])
      else if path_exists (butlast p) fs then Inl NotADirectoryError
      else Inl FileNotFoundError)"

text \<open>
  \<^verbatim>\<open>os.makedirs(name, exist_ok=True)\<close>: the missing parent is made first, then the directory
  itself; an error of \<^verbatim>\<open>mkdir\<close> is swallowed when the directory is there.
\<close>

definition mkdir_exist_ok :: "path \<Rightarrow> 'c filesystem \<Rightarrow> error option \<times> 'c filesystem" where
  "mkdir_exist_ok p fs =
     (case mkdir p fs of
        Inr fs' \<Rightarrow> (None, fs')
      | Inl e \<Rightarrow> if isdir p fs then (None, fs) else (Some e, fs))"

function makedirs :: "path \<Rightarrow> 'c filesystem \<Rightarrow> error option \<times> 'c filesystem" where
  "makedirs p fs =
     (if butlast p \<noteq> [] \<and> \<not> path_exists (butlast p) fs then
        (case makedirs (butlast p) fs of
           (None, fs') \<Rightarrow> mkdir_exist_ok p fs'
         | (Some e, fs') \<Rightarrow> if e = FileExistsError then mkdir_exist_ok p fs' else (Some e, fs'))
      else mkdir_exist_ok p fs)"
  by pat_completeness auto
termination
proof (relation "measure (\<lambda>(p, fs). length p)")
  show "wf (measure (\<lambda>(p :: path, fs :: 'c filesystem). length p))"
    by simp
next
  fix p :: path and fs :: "'c filesystem"
  assume "butlast p \<noteq> [] \<and> \<not> path_exists (butlast p) fs"
  then have "p \<noteq> []"
    by auto
  then show "((butlast p, fs), (p, fs)) \<in> measure (\<lambda>(p, fs). length p)"
    by simp
qed

declare makedirs.simps [simp del]

text \<open>
  Modelled from the spec: \<^verbatim>\<open>PDBMolecule.compress\<close> and \<^verbatim>\<open>PDBMolecule.load\<close> are not among the
  sources. Section 4.6: one compressed archive file per molecule. Writing creates or
  replaces the file at the given path inside an existing directory; loading reads the
  file at the given path. The parameters \<open>cmp\<close> and \<open>ld\<close> stand for the serialisation of a
  molecule into the content of an archive and back.
\<close>

definition write_file :: "path \<Rightarrow> 'c \<Rightarrow> 'c filesystem \<Rightarrow> error + 'c filesystem" where
  "write_file p c fs =
     (if isdir p fs then Inl IsADirectoryError
      else if \<not> isdir (butlast p) fs then
        (if path_exists (butlast p) fs then Inl NotADirectoryError else Inl FileNotFoundError)
      else Inr (AList.update p (File c) fs))"

definition load_file :: "('c \<Rightarrow> error + 'm) \<Rightarrow> 'c filesystem \<Rightarrow> path \<Rightarrow> error + 'm" where
  "load_file ld fs p =
     (case map_of fs p of
        None \<Rightarrow> Inl FileNotFoundError
      | Some Dir \<Rightarrow> Inl IsADirectoryError
      | Some (File c) \<Rightarrow> ld c)"

text \<open>Python's \<^verbatim>\<open>str\<close> of a natural number: its decimal digits, no leading zero.\<close>

definition digit_char :: "nat \<Rightarrow> char" where
  "digit_char d = char_of (48 + d)"

fun str_nat :: "nat \<Rightarrow> string" where
  "str_nat n = (if n < 10 then [digit_char n] else str_nat (n div 10) @ [digit_char (n mod 10)])"

declare str_nat.simps [simp del]

definition npz_name :: "nat \<Rightarrow> string" where
  "npz_name idn = str_nat idn @ ''.npz''"

fun save_npz_loop ::
  "('m \<Rightarrow> 'c) \<Rightarrow> path \<Rightarrow> nat \<Rightarrow> 'm list \<Rightarrow> 'c filesystem \<Rightarrow> error option \<times> 'c filesystem" where
  "save_npz_loop cmp p idn [] fs = (None, fs)"
| "save_npz_loop cmp p idn (mol # rest) fs =
     (case write_file (p @ [npz_name idn]) (cmp mol) fs of
        Inl e \<Rightarrow> (Some e, fs)
      | Inr fs' \<Rightarrow> save_npz_loop cmp p (Suc idn) rest fs')"

text \<open>
  \<^verbatim>\<open>save_npz\<close> returns the exception that reached the caller, if any, and the file system
  as the call left it.
\<close>

definition save_npz ::
  "('m \<Rightarrow> 'c) \<Rightarrow> 'm PDBDataset \<Rightarrow> path \<Rightarrow> bool \<Rightarrow> 'c filesystem \<Rightarrow> error option \<times> 'c filesystem" where
  "save_npz cmp ds p overwrite fs =
     (if path_exists p fs \<and> \<not> overwrite then (Some FileExistsError, fs)
      else
        (case makedirs p fs of
           (Some e, fs') \<Rightarrow> (Some e, fs')
         | (None, fs') \<Rightarrow> save_npz_loop cmp p 0 (mols ds) fs'))"

text \<open>
  \<^verbatim>\<open>Path(path).rglob('*.npz')\<close>: every entry below the path, at any depth, whose name ends
  in \<^verbatim>\<open>.npz\<close>. \<^verbatim>\<open>sorted\<close> orders paths by their components, and strings by their characters.
\<close>

definition rglob_npz :: "path \<Rightarrow> 'c filesystem \<Rightarrow> path list" where
  "rglob_npz p fs = filter (\<lambda>q. strict_prefix p q \<and> suffix ''.npz'' (last q)) (map fst fs)"

fun load_npz_loop ::
  "('c \<Rightarrow> error + 'm) \<Rightarrow> 'c filesystem \<Rightarrow> path list \<Rightarrow> 'm PDBDataset \<Rightarrow> error + 'm PDBDataset" where
  "load_npz_loop ld fs [] ob = Inr ob"
| "load_npz_loop ld fs (npz # rest) ob =
     (case load_file ld fs npz of
        Inl e \<Rightarrow> Inl e
      | Inr mol \<Rightarrow> load_npz_loop ld fs rest (append ob mol))"

definition load_npz ::
  "('c \<Rightarrow> error + 'm) \<Rightarrow> path \<Rightarrow> bool \<Rightarrow> 'c filesystem \<Rightarrow> error + 'm PDBDataset" where
  "load_npz ld p keep_order fs =
     (let paths = (if \<not> keep_order then rglob_npz p fs else sort (rglob_npz p fs))
      in load_npz_loop ld fs paths init)"

section \<open>Notions for the statements, and example data\<close>

text \<open>
  The molecules of the scenarios A and B of the specification (section 8): reference
  energies 0, 10, 100 and reference energies 0, 200.
\<close>

definition conf_of_energy :: "real \<Rightarrow> conformation" where
  "conf_of_energy e = \<lparr>geometry = [(0, 0, 0)], energy = e, force = [(0, 0, 0)], computed = []\<rparr>"

definition scenario_A :: molecule where
  "scenario_A = \<lparr>elements = [1], conformations = map conf_of_energy [0, 10, 100]\<rparr>"

definition scenario_B :: molecule where
  "scenario_B = \<lparr>elements = [8], conformations = map conf_of_energy [0, 200]\<rparr>"

text \<open>
  The molecules of the well-formed groups of an archive, in the order of the archive: the
  groups that the reading function \<open>rd\<close> turns into a molecule.
\<close>

fun readable :: "('g \<Rightarrow> error + 'm) \<Rightarrow> (string \<times> 'g) list \<Rightarrow> 'm list" where
  "readable rd [] = []"
| "readable rd ((name, g) # rest) =
     (case rd g of Inr mol \<Rightarrow> mol # readable rd rest | Inl e \<Rightarrow> readable rd rest)"

text \<open>
  The archive of scenario D of the specification: three groups, of which the second lacks
  the array of gradients. Arrays are lists of numbers here, and a molecule is built as the
  tuple of its four arrays.
\<close>

definition tuple_of_arrays ::
  "int list \<Rightarrow> int list \<Rightarrow> int list \<Rightarrow> int list \<Rightarrow> error + int list \<times> int list \<times> int list \<times> int list" where
  "tuple_of_arrays els xyz energies grads = Inr (els, xyz, energies, grads)"

definition scenario_D :: "(string \<times> int list group) list" where
  "scenario_D =
     [(''ala'', [(''atomic_numbers'', [6, 1]), (''dft_total_energy'', [5, 7]),
                 (''conformations'', [0, 1]), (''dft_total_gradient'', [2, 3])]),
      (''gly'', [(''atomic_numbers'', [7]), (''dft_total_energy'', [1]),
                 (''conformations'', [4])]),
      (''ser'', [(''atomic_numbers'', [8]), (''dft_total_energy'', [9]),
                 (''conformations'', [2]), (''dft_total_gradient'', [6])])]"

text \<open>
  A scorer that has no template for the atomic number 0 and otherwise returns the energy 1
  and a zero force per atom; a molecule that it cannot score.
\<close>

definition template_scorer :: "unit option \<Rightarrow> int list \<Rightarrow> vec3 list \<Rightarrow> error + real \<times> vec3 list" where
  "template_scorer get_charges els geom =
     (if 0 \<in> set els then Inl (OtherError ''no template'')
      else Inr (1, map (\<lambda>v. (0, 0, 0)) geom))"

definition no_template :: molecule where
  "no_template = \<lparr>elements = [0], conformations = map conf_of_energy [3, 4]\<rparr>"

text \<open>
  A fresh path: nothing exists at or below it, and whatever exists above it is a
  directory, so that the directory can be created.
\<close>

definition fresh_path :: "path \<Rightarrow> 'c filesystem \<Rightarrow> bool" where
  "fresh_path p fs =
     (p \<noteq> [] \<and> list_all (\<lambda>(q, nd). \<not> prefix p q \<and> (prefix q p \<longrightarrow> nd = Dir)) fs)"

text \<open>
  Modelled from the spec: \<^verbatim>\<open>PDBMolecule.compress\<close> and \<^verbatim>\<open>PDBMolecule.load\<close> are not among the
  sources. Section 6: the archive file of a molecule contains its element list, geometry
  array, reference energy array, reference force array and stored labels, and loading
  after saving reproduces them. The content of an archive is the molecule record itself.
\<close>

definition compress :: "molecule \<Rightarrow> molecule" where
  "compress mol = mol"

definition load :: "molecule \<Rightarrow> error + molecule" where
  "load c = Inr c"

text \<open>A container of twelve molecules, told apart by their single atomic number.\<close>

definition twelve :: "molecule PDBDataset" where
  "twelve = \<lparr>mols = map (\<lambda>z. \<lparr>elements = [int z], conformations = []\<rparr>) [0..<12], info = True\<rparr>"

section \<open>Compaction of the membership list\<close>

lemma compact_gen:
  "length keep = length ms \<Longrightarrow>
   map snd (filter (\<lambda>(i, mol). (pre @ keep) ! i) (enumerate (length pre) ms)) =
   map snd (filter fst (zip keep ms))"
proof (induction ms arbitrary: keep pre)
  case Nil
  then show ?case by simp
next
  case (Cons m ms)
  then obtain k ks where keep: "keep = k # ks" and len: "length ks = length ms"
    by (cases keep) auto
  have "map snd (filter (\<lambda>(i, mol). ((pre @ [k]) @ ks) ! i) (enumerate (length (pre @ [k])) ms)) =
        map snd (filter fst (zip ks ms))"
    by (rule Cons.IH [OF len])
  then show ?case by (simp add: keep nth_append)
qed

lemma compact_zip:
  "length keep = length ms \<Longrightarrow> compact keep ms = map snd (filter fst (zip keep ms))"
  using compact_gen [of keep ms "[]"] by (simp add: compact_def)

lemma compact_map_fst:
  "compact (map (fst \<circ> f) ms) (map (snd \<circ> f) ms) = map snd (filter fst (map f ms))"
proof -
  have "zip (map (fst \<circ> f) ms) (map (snd \<circ> f) ms) = map f ms"
    by (induction ms) simp_all
  then show ?thesis
    by (simp add: compact_zip)
qed

lemma compact_filter: "compact (map chk ms) ms = filter chk ms"
proof -
  have "map snd (filter fst (zip (map chk ms) ms)) = filter chk ms"
    by (induction ms) simp_all
  then show ?thesis
    by (simp add: compact_zip)
qed

section \<open>The conformation-window filter removes the molecules that are not viable\<close>

lemma filter_confs_loop_eq:
  "filter_confs_loop mfc ms keep visited =
     (keep @ map (fst \<circ> mfc) ms, visited @ map (snd \<circ> mfc) ms)"
  by (induction ms arbitrary: keep visited) (simp_all split: prod.splits)

lemma mols_filter_confs:
  "mols (filter_confs mfc ds max_energy max_force) =
     map snd (filter fst (map (mfc max_energy max_force) (mols ds)))"
  by (simp add: filter_confs_def filter_confs_loop_eq compact_map_fst)

lemma mol_filter_confs_flag:
  "fst (mol_filter_confs max_energy max_force mol) \<longleftrightarrow>
     2 \<le> length (conformations (snd (mol_filter_confs max_energy max_force mol)))"
  by (simp add: mol_filter_confs_def Let_def)

text \<open>
  Claim C1. After \<^verbatim>\<open>filter_confs\<close> the container holds, in their original relative order and
  in their pruned state, exactly the molecules whose per-molecule filter returned true;
  the flag \<^verbatim>\<open>info\<close> is unchanged. The per-molecule filter of the specification returns true
  iff at least 2 conformations remain after pruning, so that with it the container holds
  exactly the pruned molecules that have at least 2 conformations left.
\<close>

theorem filter_confs_keeps_viable:
  "mols (filter_confs mfc ds max_energy max_force) =
     map snd (filter fst (map (mfc max_energy max_force) (mols ds)))
   \<and> info (filter_confs mfc ds max_energy max_force) = info ds
   \<and> (fst (mol_filter_confs max_energy max_force mol) \<longleftrightarrow>
        2 \<le> length (conformations (snd (mol_filter_confs max_energy max_force mol))))
   \<and> mols (filter_confs mol_filter_confs dsm max_energy max_force) =
       filter (\<lambda>m. 2 \<le> length (conformations m))
         (map (\<lambda>m. snd (mol_filter_confs max_energy max_force m)) (mols dsm))"
proof -
  have "info (filter_confs mfc ds max_energy max_force) = info ds"
    by (simp add: filter_confs_def split: prod.splits)
  moreover have "map snd (filter fst (map (mol_filter_confs max_energy max_force) ms)) =
       filter (\<lambda>m. 2 \<le> length (conformations m))
         (map (\<lambda>m. snd (mol_filter_confs max_energy max_force m)) ms)" for ms
    by (induction ms) (simp_all add: mol_filter_confs_flag)
  ultimately show ?thesis
    by (simp add: mols_filter_confs mol_filter_confs_flag)
qed

text \<open>
  The scenarios A and B of the specification in one container: the molecule with the
  energies 0, 10 and 100 keeps two conformations and stays; the molecule with the energies
  0 and 200 keeps one and is dropped.
\<close>

theorem filter_confs_keeps_viable_witness:
  "mols (filter_confs mol_filter_confs \<lparr>mols = [scenario_A, scenario_B], info = True\<rparr> 60 None) =
     [\<lparr>elements = [1], conformations = map conf_of_energy [0, 10]\<rparr>]
   \<and> \<not> fst (mol_filter_confs 60 None scenario_B)"
  using filter_confs_keeps_viable [where mfc = mol_filter_confs and max_energy = 60
      and max_force = None and mol = scenario_B
      and ds = "\<lparr>mols = [scenario_A, scenario_B], info = True\<rparr>"
      and dsm = "\<lparr>mols = [scenario_A, scenario_B], info = True\<rparr>"]
  by (simp add: mol_filter_confs_def min_energy_def keep_conformation_def scenario_A_def
      scenario_B_def conf_of_energy_def)

section \<open>The validity filter removes the molecules that fail the check\<close>

lemma filter_validity_loop_keep:
  "fst (filter_validity_loop chk ms keep removed) = keep @ map chk ms"
  by (induction ms arbitrary: keep removed) (simp_all add: Let_def)

lemma mols_filter_validity:
  "mols (filter_validity chk ds forcefield sigmas) = filter (chk forcefield sigmas) (mols ds)"
  by (simp add: filter_validity_def case_prod_beta filter_validity_loop_keep compact_filter)

text \<open>
  Claim C2. \<^verbatim>\<open>filter_validity\<close> leaves in the container exactly the molecules for which the
  per-molecule validity check returns true, unmodified and in their original relative
  order; the flag \<^verbatim>\<open>info\<close> is unchanged. With the check of the specification a molecule is
  kept iff both the energy criterion and the force criterion pass.
\<close>

theorem filter_validity_removes_invalid:
  "mols (filter_validity chk ds forcefield sigmas) = filter (chk forcefield sigmas) (mols ds)
   \<and> info (filter_validity chk ds forcefield sigmas) = info ds
   \<and> mols (filter_validity (conf_check energy_criterion force_criterion) ds forcefield
         (sigma_energy, sigma_force)) =
       filter (\<lambda>m. energy_criterion forcefield sigma_energy m \<and>
                   force_criterion forcefield sigma_force m) (mols ds)"
proof -
  have "info (filter_validity chk ds forcefield sigmas) = info ds"
    by (simp add: filter_validity_def split: prod.splits)
  moreover have "conf_check energy_criterion force_criterion forcefield (sigma_energy, sigma_force) =
     (\<lambda>m. energy_criterion forcefield sigma_energy m \<and> force_criterion forcefield sigma_force m)"
    by (simp add: conf_check_def fun_eq_iff)
  ultimately show ?thesis
    by (simp add: mols_filter_validity)
qed

text \<open>
  Four molecules, written as the pair of their energy error and force error; each
  criterion asks for an error of at most sigma times 10. Only the first molecule passes both.
\<close>

theorem filter_validity_removes_invalid_witness:
  "mols (filter_validity
      (conf_check (\<lambda>ff s m. fst m \<le> s * 10) (\<lambda>ff s m. snd m \<le> s * 10))
      \<lparr>mols = [(3, 4), (30, 4), (3, 40), (30, 40 :: real)] :: (real \<times> real) list, info = True\<rparr>
      ''amber99sbildn'' (1, 1)) = [(3, 4)]"
  using filter_validity_removes_invalid [where
      energy_criterion = "\<lambda>ff s m. fst m \<le> s * 10" and
      force_criterion = "\<lambda>ff s m. snd m \<le> s * 10" and
      ds = "\<lparr>mols = [(3, 4), (30, 4), (3, 40), (30, 40 :: real)] :: (real \<times> real) list, info = True\<rparr>" and
      forcefield = "''amber99sbildn''" and sigma_energy = 1 and sigma_force = 1 and
      sigmas = "(1, 1)" and
      chk = "conf_check (\<lambda>ff s m. fst m \<le> s * 10) (\<lambda>ff s m. snd m \<le> s * 10)"]
  by (simp add: conf_check_def)

section \<open>Appending\<close>

text \<open>
  Claim C7, as amended. \<^verbatim>\<open>append\<close> performs no validation at all: every record is stored
  at the end of the container, whose length grows by one, while the molecules stored
  before and the flag \<^verbatim>\<open>info\<close> are unchanged.
\<close>

theorem append_no_validation:
  "mols (append ds mol) = mols ds @ [mol]
   \<and> len (append ds mol) = len ds + 1
   \<and> info (append ds mol) = info ds"
  by (simp add: append_def len_def)

text \<open>
  The claim as stated fails: a record with zero conformations is not rejected, it is
  stored like any other.
\<close>

theorem append_zero_conformations_counterexample:
  "conformations \<lparr>elements = [6, 1], conformations = []\<rparr> = []
   \<and> mols (append init \<lparr>elements = [6, 1], conformations = []\<rparr>) =
       [\<lparr>elements = [6, 1], conformations = []\<rparr>]"
  by (simp add: append_def init_def)

section \<open>Graph export\<close>

lemma py_index_in_range:
  "- int (length xs) \<le> i \<Longrightarrow> i < int (length xs) \<Longrightarrow>
   py_index xs i = Inr (xs ! nat (i mod int (length xs)))"
proof (cases "0 \<le> i")
  case True
  assume "i < int (length xs)"
  with True show ?thesis by (simp add: py_index_def)
next
  case False
  assume lo: "- int (length xs) \<le> i"
  from False lo have "(int (length xs) + i) mod int (length xs) = int (length xs) + i"
    by (intro mod_pos_pos_trivial) auto
  then have "i mod int (length xs) = int (length xs) + i"
    by simp
  with False lo show ?thesis by (simp add: py_index_def)
qed

lemma get_graphs_all: "get_graphs mtd (pre @ ms) (map int [length pre..<length pre + length ms]) = Inr (map mtd ms)"
proof (induction ms arbitrary: pre)
  case Nil then show ?case by simp
next
  case (Cons m ms)
  have "get_graphs mtd ((pre @ [m]) @ ms) (map int [length (pre @ [m])..<length (pre @ [m]) + length ms]) = Inr (map mtd ms)"
    by (rule Cons.IH)
  moreover have "[length pre..<length pre + length (m # ms)] = length pre # [Suc (length pre)..<Suc (length pre) + length ms]"
    by (subst upt_rec) simp
  ultimately show ?case by (simp add: py_index_def)
qed

lemma get_graphs_in_range:
  "\<forall>i \<in> set idxs. - int (length ms) \<le> i \<and> i < int (length ms) \<Longrightarrow>
   get_graphs mtd ms idxs = Inr (map (\<lambda>i. mtd (ms ! nat (i mod int (length ms)))) idxs)"
  by (induction idxs) (simp_all add: py_index_in_range)

text \<open>
  Claim C9. With no index list and no split, \<^verbatim>\<open>to_dgl\<close> returns the graphs of all molecules
  in container order. With an index list whose entries are valid subscripts it returns
  the graphs of the molecules at those subscripts, in the given order. A split is applied
  to the very list of graphs that the same selection yields without a split, an error of
  the selection surfaces unchanged, and without a split nothing is partitioned.
\<close>

theorem to_dgl_modes:
  "to_dgl mtd split_dataset ds None None seed = Inr (Graphs (map mtd (mols ds)))
   \<and> ((\<forall>i \<in> set idxs. - int (len ds) \<le> i \<and> i < int (len ds)) \<longrightarrow>
        to_dgl mtd split_dataset ds (Some idxs) None seed =
          Inr (Graphs (map (\<lambda>i. mtd (mols ds ! nat (i mod int (len ds)))) idxs)))
   \<and> (\<forall>glist. to_dgl mtd split_dataset ds sel None seed = Inr (Graphs glist) \<longrightarrow>
        to_dgl mtd split_dataset ds sel (Some fracs) seed =
          Inr (Splits (split_dataset glist fracs seed)))
   \<and> (\<forall>e. to_dgl mtd split_dataset ds sel None seed = Inl e \<longrightarrow>
        to_dgl mtd split_dataset ds sel (Some fracs) seed = Inl e)
   \<and> (\<forall>parts. to_dgl mtd split_dataset ds sel None seed \<noteq> Inr (Splits parts))"
proof -
  have "to_dgl mtd split_dataset ds None None seed = Inr (Graphs (map mtd (mols ds)))"
    using get_graphs_all [of mtd "[]" "mols ds"] by (simp add: to_dgl_def len_def)
  moreover have "(\<forall>i \<in> set idxs. - int (len ds) \<le> i \<and> i < int (len ds)) \<longrightarrow>
        to_dgl mtd split_dataset ds (Some idxs) None seed =
          Inr (Graphs (map (\<lambda>i. mtd (mols ds ! nat (i mod int (len ds)))) idxs))"
    by (simp add: to_dgl_def len_def get_graphs_in_range)
  moreover have "\<forall>glist. to_dgl mtd split_dataset ds sel None seed = Inr (Graphs glist) \<longrightarrow>
        to_dgl mtd split_dataset ds sel (Some fracs) seed =
          Inr (Splits (split_dataset glist fracs seed))"
    by (auto simp: to_dgl_def Let_def split: sum.splits)
  moreover have "\<forall>e. to_dgl mtd split_dataset ds sel None seed = Inl e \<longrightarrow>
        to_dgl mtd split_dataset ds sel (Some fracs) seed = Inl e"
    by (auto simp: to_dgl_def Let_def split: sum.splits)
  moreover have "\<forall>parts. to_dgl mtd split_dataset ds sel None seed \<noteq> Inr (Splits parts)"
    by (auto simp: to_dgl_def Let_def split: sum.splits)
  ultimately show ?thesis by blast
qed


text \<open>
  Three molecules, the conversion \<open>Suc\<close>, the selection 2, 0, -1 and a partition that cuts
  the list of graphs after its second element.
\<close>

theorem to_dgl_modes_witness:
  "to_dgl Suc (\<lambda>glist fracs seed. (take 2 glist, drop 2 glist))
     \<lparr>mols = [10, 20, 30], info = False\<rparr> (Some [2, 0, - 1]) None 7 = Inr (Graphs [31, 11, 31])
   \<and> to_dgl Suc (\<lambda>glist fracs seed. (take 2 glist, drop 2 glist))
     \<lparr>mols = [10, 20, 30], info = False\<rparr> (Some [2, 0, - 1]) (Some [1 / 2, 1 / 2]) 7 =
       Inr (Splits ([31, 11], [31]))"
  using to_dgl_modes [where mtd = Suc and split_dataset = "\<lambda>glist fracs seed. (take 2 glist, drop 2 glist)"
      and ds = "\<lparr>mols = [10, 20, 30], info = False\<rparr>" and idxs = "[2, 0, - 1]"
      and sel = "Some [2, 0, - 1]" and fracs = "[1 / 2, 1 / 2]" and seed = 7]
  by (simp add: len_def)

section \<open>Ingestion of a bulk archive: skipped records and the count cap\<close>

lemma from_hdf5_loop_stop:
  "int (len (obj st)) > n \<Longrightarrow> from_hdf5_loop rd (Some n) skip_errs gs st = Inr st"
  by (cases gs) auto

lemma readable_append: "readable rd (xs @ ys) = readable rd xs @ readable rd ys"
  by (induction xs) (auto split: sum.splits)

lemma readable_filter:
  "readable rd (filter (\<lambda>(name, g). \<not> isl (rd g)) gs) = readable rd gs"
  by (induction gs) (auto split: sum.splits)

lemma length_readable:
  "length (readable rd gs) + length (filter (\<lambda>(name, g). isl (rd g)) gs) = length gs"
  by (induction gs) (auto split: sum.splits)

lemma from_hdf5_loop_skip_uncapped:
  "\<exists>st'. from_hdf5_loop rd None True gs st = Inr st'
     \<and> mols (obj st') = mols (obj st) @ readable rd gs
     \<and> info (obj st') = info (obj st)
     \<and> counter st' = counter st + length (readable rd gs)
     \<and> failed_counter st' = failed_counter st + length (filter (\<lambda>(name, g). isl (rd g)) gs)"
proof (induction gs arbitrary: st)
  case Nil
  then show ?case by simp
next
  case (Cons ng gs)
  obtain name g where ng: "ng = (name, g)" by (cases ng)
  show ?case
  proof (cases "rd g")
    case (Inl e)
    from Cons.IH [of "st\<lparr>failed_counter := failed_counter st + 1\<rparr>"]
    show ?thesis by (auto simp: ng Inl)
  next
    case (Inr mol)
    from Cons.IH [of "st\<lparr>obj := append (obj st) mol, counter := counter st + 1\<rparr>"]
    show ?thesis by (auto simp: ng Inr append_def)
  qed
qed

lemma from_hdf5_loop_capped:
  "length (mols (obj st)) \<le> nat (n + 1) \<Longrightarrow>
   from_hdf5_loop rd (Some n) skip_errs gs st = Inr st' \<Longrightarrow>
   mols (obj st') = take (nat (n + 1)) (mols (obj st) @ readable rd gs)
   \<and> info (obj st') = info (obj st)"
proof (induction gs arbitrary: st)
  case Nil
  then show ?case by simp
next
  case (Cons ng gs)
  obtain name g where ng: "ng = (name, g)" by (cases ng)
  show ?case
  proof (cases "int (len (obj st)) > n")
    case True
    with Cons.prems have "st' = st" by (simp add: ng)
    moreover from True Cons.prems(1) have "length (mols (obj st)) = nat (n + 1)"
      by (simp add: len_def; linarith?)
    ultimately show ?thesis by simp
  next
    case False
    show ?thesis
    proof (cases "rd g")
      case (Inl e)
      with False Cons.prems have run: "from_hdf5_loop rd (Some n) skip_errs gs
          (st\<lparr>failed_counter := failed_counter st + 1\<rparr>) = Inr st'"
        by (simp add: ng split: if_splits)
      from Cons.IH [OF _ run] Cons.prems(1) show ?thesis
        by (simp add: ng Inl)
    next
      case (Inr mol)
      with False Cons.prems have run: "from_hdf5_loop rd (Some n) skip_errs gs
          (st\<lparr>obj := append (obj st) mol, counter := counter st + 1\<rparr>) = Inr st'"
        by (simp add: ng)
      from False have "length (mols (obj (st\<lparr>obj := append (obj st) mol, counter := counter st + 1\<rparr>))) \<le> nat (n + 1)"
        by (simp add: len_def append_def; linarith?)
      from Cons.IH [OF this run] show ?thesis
        by (simp add: ng Inr append_def)
    qed
  qed
qed

lemma from_hdf5_loop_skip_returns:
  "\<exists>st'. from_hdf5_loop rd n_max True gs st = Inr st'"
  by (induction gs arbitrary: st) (auto split: sum.splits option.splits simp: Let_def)

lemma from_hdf5_loop_raises:
  "\<forall>(name, g) \<in> set pre. \<not> isl (rd g) \<Longrightarrow> rd g = Inl e \<Longrightarrow>
   (case n_max of None \<Rightarrow> True | Some n \<Rightarrow> int (length (mols (obj st)) + length pre) \<le> n) \<Longrightarrow>
   from_hdf5_loop rd n_max False (pre @ (name, g) # post) st = Inl e"
proof (induction pre arbitrary: st)
  case Nil
  then show ?case by (auto simp: len_def split: option.splits)
next
  case (Cons ng pre)
  obtain name' g' where ng: "ng = (name', g')" by (cases ng)
  from Cons.prems(1) obtain mol where mol: "rd g' = Inr mol"
    by (cases "rd g'") (auto simp: ng)
  have "from_hdf5_loop rd n_max False (pre @ (name, g) # post)
      (st\<lparr>obj := append (obj st) mol, counter := counter st + 1\<rparr>) = Inl e"
    using Cons.prems by (intro Cons.IH) (auto simp: append_def split: option.splits)
  with Cons.prems(3) show ?case
    by (auto simp: ng mol len_def split: option.splits)
qed


lemma from_hdf5_loop_uncapped:
  "from_hdf5_loop rd None skip_errs gs st = Inr st' \<Longrightarrow>
   mols (obj st') = mols (obj st) @ readable rd gs
   \<and> counter st' + failed_counter st' = counter st + failed_counter st + length gs"
proof (induction gs arbitrary: st)
  case Nil
  then show ?case by simp
next
  case (Cons ng gs)
  obtain name g where ng: "ng = (name, g)" by (cases ng)
  show ?case
  proof (cases "rd g")
    case (Inl e)
    with Cons.prems have "from_hdf5_loop rd None skip_errs gs
        (st\<lparr>failed_counter := failed_counter st + 1\<rparr>) = Inr st'"
      by (simp add: ng split: if_splits)
    from Cons.IH [OF this] show ?thesis by (simp add: ng Inl)
  next
    case (Inr mol)
    with Cons.prems have "from_hdf5_loop rd None skip_errs gs
        (st\<lparr>obj := append (obj st) mol, counter := counter st + 1\<rparr>) = Inr st'"
      by (simp add: ng)
    from Cons.IH [OF this] show ?thesis by (simp add: ng Inr append_def)
  qed
qed

lemma from_hdf5_loop_append:
  "from_hdf5_loop rd n_max skip_errs (pre @ post) st =
     (case from_hdf5_loop rd n_max skip_errs pre st of
        Inl e \<Rightarrow> Inl e
      | Inr st1 \<Rightarrow> from_hdf5_loop rd n_max skip_errs post st1)"
proof (induction pre arbitrary: st)
  case Nil
  then show ?case by simp
next
  case (Cons ng pre)
  obtain name g where ng: "ng = (name, g)" by (cases ng)
  show ?case
  proof (cases "case n_max of None \<Rightarrow> False | Some n \<Rightarrow> int (len (obj st)) > n")
    case True
    then obtain n where n: "n_max = Some n" "int (len (obj st)) > n"
      by (auto split: option.splits)
    then show ?thesis
      by (simp add: ng from_hdf5_loop_stop)
  next
    case False
    with Cons.IH show ?thesis
      by (cases "rd g"; cases skip_errs) (simp_all add: ng Let_def)
  qed
qed

text \<open>
  Claim C3. With \<^verbatim>\<open>skip_errs\<close> true and no count cap, ingestion returns the molecules of
  all well-formed groups, in order, counts them in \<^verbatim>\<open>counter\<close> and counts every group whose
  processing raised in \<^verbatim>\<open>failed_counter\<close>: a malformed group is skipped and the groups
  after it are still loaded. With any count cap the malformed groups leave no trace in
  the container: the result is that of the archive without them. With \<^verbatim>\<open>skip_errs\<close> false
  the error of the first malformed group that is read reaches the caller, and no
  container is returned.
\<close>

theorem from_hdf5_skips_or_raises:
  "let rd = read_group from_arrays element_key energy_key xyz_key grad_key in
   from_hdf5_run from_arrays f element_key energy_key xyz_key grad_key None True info' =
     Inr \<lparr>obj = \<lparr>mols = readable rd f, info = info'\<rparr>,
          counter = length (readable rd f),
          failed_counter = length (filter (\<lambda>(name, g). isl (rd g)) f)\<rparr>
   \<and> from_hdf5 from_arrays f element_key energy_key xyz_key grad_key n_max True info' =
       from_hdf5 from_arrays (filter (\<lambda>(name, g). \<not> isl (rd g)) f)
         element_key energy_key xyz_key grad_key n_max True info'
   \<and> (\<forall>pre name g post e.
         f = pre @ (name, g) # post \<and> (\<forall>(name', g') \<in> set pre. \<not> isl (rd g')) \<and> rd g = Inl e
           \<and> (case n_max of None \<Rightarrow> True | Some n \<Rightarrow> int (length pre) \<le> n) \<longrightarrow>
         from_hdf5 from_arrays f element_key energy_key xyz_key grad_key n_max False info' = Inl e)"
proof -
  define rd where "rd = read_group from_arrays element_key energy_key xyz_key grad_key"
  define st0 :: "'b ingestion" where "st0 = \<lparr>obj = init\<lparr>info := info'\<rparr>, counter = 0, failed_counter = 0\<rparr>"
  have st0: "mols (obj st0) = []" "info (obj st0) = info'" "counter st0 = 0" "failed_counter st0 = 0"
    by (simp_all add: st0_def init_def)
  have run: "from_hdf5_run from_arrays g element_key energy_key xyz_key grad_key nm sk info' =
      from_hdf5_loop rd nm sk g st0" for g nm sk
    by (simp add: from_hdf5_run_def rd_def st0_def)
  have one: "from_hdf5_loop rd None True f st0 =
     Inr \<lparr>obj = \<lparr>mols = readable rd f, info = info'\<rparr>,
          counter = length (readable rd f),
          failed_counter = length (filter (\<lambda>(name, g). isl (rd g)) f)\<rparr>"
    using from_hdf5_loop_skip_uncapped [of rd f st0] by (auto simp: st0)
  have two: "from_hdf5 from_arrays f element_key energy_key xyz_key grad_key n_max True info' =
       from_hdf5 from_arrays (filter (\<lambda>(name, g). \<not> isl (rd g)) f)
         element_key energy_key xyz_key grad_key n_max True info'"
  proof -
    let ?f' = "filter (\<lambda>(name, g). \<not> isl (rd g)) f"
    obtain s1 where s1: "from_hdf5_loop rd n_max True f st0 = Inr s1"
      using from_hdf5_loop_skip_returns by blast
    obtain s2 where s2: "from_hdf5_loop rd n_max True ?f' st0 = Inr s2"
      using from_hdf5_loop_skip_returns by blast
    have "mols (obj s1) = mols (obj s2) \<and> info (obj s1) = info (obj s2)"
    proof (cases n_max)
      case None
      with s1 s2 from_hdf5_loop_skip_uncapped [of rd f st0] from_hdf5_loop_skip_uncapped [of rd ?f' st0] show ?thesis
        by (auto simp: readable_filter)
    next
      case (Some n)
      with s1 s2 from_hdf5_loop_capped [of st0 n rd True f s1] from_hdf5_loop_capped [of st0 n rd True ?f' s2] show ?thesis
        by (simp add: st0 readable_filter)
    qed
    then have "obj s1 = obj s2"
      by simp
    with s1 s2 show ?thesis
      by (simp add: from_hdf5_def run)
  qed
  have three: "from_hdf5 from_arrays f element_key energy_key xyz_key grad_key n_max False info' = Inl e"
    if "f = pre @ (name, g) # post" "\<forall>(name', g') \<in> set pre. \<not> isl (rd g')" "rd g = Inl e"
       "case n_max of None \<Rightarrow> True | Some n \<Rightarrow> int (length pre) \<le> n"
    for pre name g post e
    using from_hdf5_loop_raises [where pre = pre and rd = rd and g = g and e = e and n_max = n_max
        and st = st0 and name = name and post = post] that
    by (auto simp: from_hdf5_def run st0 split: option.splits)
  from one two three show ?thesis
    unfolding Let_def rd_def [symmetric] run by blast
qed


text \<open>
  Scenario D: the group without gradients is skipped and counted once, the other two
  groups are loaded; without skipping, the missing key is the error of the call.
\<close>

theorem from_hdf5_skips_or_raises_witness:
  "from_hdf5_run tuple_of_arrays scenario_D ''atomic_numbers'' ''dft_total_energy''
     ''conformations'' ''dft_total_gradient'' None True False =
     Inr \<lparr>obj = \<lparr>mols = [([6, 1], [0, 1], [5, 7], [2, 3]), ([8], [2], [9], [6])], info = False\<rparr>,
          counter = 2, failed_counter = 1\<rparr>
   \<and> from_hdf5 tuple_of_arrays scenario_D ''atomic_numbers'' ''dft_total_energy''
     ''conformations'' ''dft_total_gradient'' None False False =
     Inl (KeyError ''dft_total_gradient'')"
proof -
  note inst = from_hdf5_skips_or_raises [where from_arrays = tuple_of_arrays and f = scenario_D
      and element_key = "''atomic_numbers''" and energy_key = "''dft_total_energy''"
      and xyz_key = "''conformations''" and grad_key = "''dft_total_gradient''"
      and n_max = None and info' = False, unfolded Let_def]
  have first: "from_hdf5_run tuple_of_arrays scenario_D ''atomic_numbers'' ''dft_total_energy''
     ''conformations'' ''dft_total_gradient'' None True False =
     Inr \<lparr>obj = \<lparr>mols = [([6, 1], [0, 1], [5, 7], [2, 3]), ([8], [2], [9], [6])], info = False\<rparr>,
          counter = 2, failed_counter = 1\<rparr>"
    using inst [THEN conjunct1]
    by (simp add: scenario_D_def read_group_def lookup_def tuple_of_arrays_def)
  have second: "from_hdf5 tuple_of_arrays scenario_D ''atomic_numbers'' ''dft_total_energy''
     ''conformations'' ''dft_total_gradient'' None False False =
     Inl (KeyError ''dft_total_gradient'')"
    using inst [THEN conjunct2, THEN conjunct2, rule_format,
        of "[hd scenario_D]" "''gly''" "snd (scenario_D ! 1)" "[scenario_D ! 2]"
           "KeyError ''dft_total_gradient''"]
    by (simp add: scenario_D_def read_group_def lookup_def tuple_of_arrays_def)
  from first second show ?thesis ..
qed

text \<open>
  Claim C8. When ingestion with \<^verbatim>\<open>n_max = n\<close> returns, the container holds the first
  \<open>n + 1\<close> molecules of the well-formed groups, or all of them if there are fewer: for
  \<open>0 \<le> n\<close> never more than \<open>n + 1\<close>, and exactly \<open>n + 1\<close>, one more than the cap, when the
  archive has that many well-formed groups. Once the container holds more than \<open>n\<close>
  molecules no further group is read: whatever groups follow in the archive, the result
  is the same. With \<^verbatim>\<open>skip_errs\<close> true the call always returns. Without a cap every group
  is processed: each one is counted as stored or as failed.
\<close>

theorem from_hdf5_soft_cap:
  "let rd = read_group from_arrays element_key energy_key xyz_key grad_key in
   (\<forall>ds. from_hdf5 from_arrays f element_key energy_key xyz_key grad_key (Some n) skip_errs info'
            = Inr ds \<longrightarrow>
      mols ds = take (nat (n + 1)) (readable rd f)
      \<and> (0 \<le> n \<longrightarrow> int (len ds) \<le> n + 1)
      \<and> (0 \<le> n \<and> n < int (length (readable rd f)) \<longrightarrow> int (len ds) = n + 1)
      \<and> (n < int (len ds) \<longrightarrow>
           (\<forall>more. from_hdf5 from_arrays (f @ more) element_key energy_key xyz_key grad_key
              (Some n) skip_errs info' = Inr ds)))
   \<and> (\<exists>ds. from_hdf5 from_arrays f element_key energy_key xyz_key grad_key (Some n) True info'
            = Inr ds)
   \<and> (\<forall>st. from_hdf5_run from_arrays f element_key energy_key xyz_key grad_key None skip_errs info'
            = Inr st \<longrightarrow>
      mols (obj st) = readable rd f \<and> counter st + failed_counter st = length f)
   \<and> (\<exists>st. from_hdf5_run from_arrays f element_key energy_key xyz_key grad_key None True info'
            = Inr st)"
proof -
  define rd where "rd = read_group from_arrays element_key energy_key xyz_key grad_key"
  define st0 :: "'b ingestion" where "st0 = \<lparr>obj = init\<lparr>info := info'\<rparr>, counter = 0, failed_counter = 0\<rparr>"
  have st0: "mols (obj st0) = []" "info (obj st0) = info'" "counter st0 = 0" "failed_counter st0 = 0"
    by (simp_all add: st0_def init_def)
  have run: "from_hdf5_run from_arrays g element_key energy_key xyz_key grad_key nm sk info' =
      from_hdf5_loop rd nm sk g st0" for g nm sk
    by (simp add: from_hdf5_run_def rd_def st0_def)
  have capped: "mols ds = take (nat (n + 1)) (readable rd f)
      \<and> (0 \<le> n \<longrightarrow> int (len ds) \<le> n + 1)
      \<and> (0 \<le> n \<and> n < int (length (readable rd f)) \<longrightarrow> int (len ds) = n + 1)
      \<and> (n < int (len ds) \<longrightarrow>
           (\<forall>more. from_hdf5 from_arrays (f @ more) element_key energy_key xyz_key grad_key
              (Some n) skip_errs info' = Inr ds))"
    if ret: "from_hdf5 from_arrays f element_key energy_key xyz_key grad_key (Some n) skip_errs info' = Inr ds"
    for ds
  proof -
    from ret obtain st where st: "from_hdf5_loop rd (Some n) skip_errs f st0 = Inr st" and ds: "ds = obj st"
      by (auto simp: from_hdf5_def run split: sum.splits)
    from from_hdf5_loop_capped [of st0 n rd skip_errs f st] st have m: "mols ds = take (nat (n + 1)) (readable rd f)"
      by (simp add: st0 ds)
    have b: "0 \<le> n \<longrightarrow> int (len ds) \<le> n + 1"
      by (auto simp: m len_def min_def)
    have c: "0 \<le> n \<and> n < int (length (readable rd f)) \<longrightarrow> int (len ds) = n + 1"
      by (auto simp: m len_def min_def)
    have d: "from_hdf5 from_arrays (f @ more) element_key energy_key xyz_key grad_key
              (Some n) skip_errs info' = Inr ds" if "n < int (len ds)" for more
      using that by (simp add: from_hdf5_def run from_hdf5_loop_append st ds from_hdf5_loop_stop)
    from m b c d show ?thesis by blast
  qed
  have returns: "\<exists>ds. from_hdf5 from_arrays f element_key energy_key xyz_key grad_key (Some n) True info' = Inr ds"
    using from_hdf5_loop_skip_returns [of rd "Some n" f st0] by (auto simp: from_hdf5_def run)
  have uncapped: "mols (obj st) = readable rd f \<and> counter st + failed_counter st = length f"
    if "from_hdf5_run from_arrays f element_key energy_key xyz_key grad_key None skip_errs info' = Inr st"
    for st
    using from_hdf5_loop_uncapped [of rd skip_errs f st0 st] that by (simp add: run st0)
  have returns': "\<exists>st. from_hdf5_run from_arrays f element_key energy_key xyz_key grad_key None True info' = Inr st"
    using from_hdf5_loop_skip_returns [of rd None f st0] by (simp add: run)
  from capped returns uncapped returns' show ?thesis
    unfolding Let_def rd_def [symmetric] by blast
qed

text \<open>
  Scenario D with the cap 0: one molecule is stored, one more than the cap, and the
  remaining groups are not read.
\<close>

theorem from_hdf5_soft_cap_witness:
  "from_hdf5 tuple_of_arrays scenario_D ''atomic_numbers'' ''dft_total_energy''
     ''conformations'' ''dft_total_gradient'' (Some 0) True False =
     Inr \<lparr>mols = [([6, 1], [0, 1], [5, 7], [2, 3])], info = False\<rparr>
   \<and> int (len \<lparr>mols = [([6, 1], [0, 1], [5, 7], [2 :: int, 3])] :: (int list \<times> int list \<times> int list \<times> int list) list, info = False\<rparr>) = 0 + 1"
proof -
  have run: "from_hdf5 tuple_of_arrays scenario_D ''atomic_numbers'' ''dft_total_energy''
     ''conformations'' ''dft_total_gradient'' (Some 0) True False =
     Inr \<lparr>mols = [([6, 1], [0, 1], [5, 7], [2, 3])], info = False\<rparr>"
    by (simp add: from_hdf5_def from_hdf5_run_def scenario_D_def read_group_def lookup_def
        tuple_of_arrays_def init_def len_def append_def)
  have "readable (read_group tuple_of_arrays ''atomic_numbers'' ''dft_total_energy''
     ''conformations'' ''dft_total_gradient'') scenario_D =
     [([6, 1], [0, 1], [5, 7], [2, 3]), ([8], [2], [9], [6])]"
    by (simp add: scenario_D_def read_group_def lookup_def tuple_of_arrays_def)
  with from_hdf5_soft_cap [where from_arrays = tuple_of_arrays and f = scenario_D
      and element_key = "''atomic_numbers''" and energy_key = "''dft_total_energy''"
      and xyz_key = "''conformations''" and grad_key = "''dft_total_gradient''"
      and n = 0 and skip_errs = True and info' = False, unfolded Let_def,
      THEN conjunct1, rule_format, OF run]
  have "int (len \<lparr>mols = [([6, 1], [0, 1], [5, 7], [2 :: int, 3])] :: (int list \<times> int list \<times> int list \<times> int list) list, info = False\<rparr>) = 0 + 1"
    by simp
  with run show ?thesis ..
qed

section \<open>Parametrization stops at the first failure\<close>

lemma parametrize_loop_ok:
  "\<forall>m \<in> set ms. fst (mp m) = None \<Longrightarrow>
   parametrize_loop mp ms visited = (None, visited @ map (\<lambda>m. snd (mp m)) ms)"
proof (induction ms arbitrary: visited)
  case Nil
  then show ?case by simp
next
  case (Cons m ms)
  then obtain m' where "mp m = (None, m')"
    by (cases "mp m") auto
  with Cons show ?case by simp
qed

lemma parametrize_loop_fail:
  "\<forall>m \<in> set pre. fst (mp m) = None \<Longrightarrow> mp mol = (Some e, mol') \<Longrightarrow>
   parametrize_loop mp (pre @ mol # post) visited =
     (Some e, visited @ map (\<lambda>m. snd (mp m)) pre @ mol' # post)"
proof (induction pre arbitrary: visited)
  case Nil
  then show ?case by simp
next
  case (Cons m pre)
  then obtain m' where "mp m = (None, m')"
    by (cases "mp m") auto
  with Cons show ?case by simp
qed

lemma mol_parametrize_atomic:
  "fst (mol_parametrize scorer label get_charges m) \<noteq> None \<Longrightarrow>
   snd (mol_parametrize scorer label get_charges m) = m"
  by (simp add: mol_parametrize_def split: sum.splits)

text \<open>
  Claim C6. If the per-molecule parametrization raises at a molecule while it returned
  for every molecule before it, the error reaches the caller and the container is left in
  a prefix state: the molecules before carry their new labels, the molecules after are as
  they were, and the erroring molecule is as its own failed call left it. If no call
  raises, every molecule carries its new labels. The per-molecule parametrization of the
  specification leaves a molecule untouched when the scorer fails, so that with it the
  erroring molecule and all molecules after it are untouched.
\<close>

theorem parametrize_prefix_state:
  "(mols ds = pre @ mol # post \<and> (\<forall>m \<in> set pre. fst (mp forcefield suffix' get_charges m) = None)
      \<and> mp forcefield suffix' get_charges mol = (Some e, mol') \<longrightarrow>
    parametrize mp ds forcefield suffix' get_charges =
      (Some e, ds\<lparr>mols := map (\<lambda>m. snd (mp forcefield suffix' get_charges m)) pre @ mol' # post\<rparr>))
   \<and> ((\<forall>m \<in> set (mols ds). fst (mp forcefield suffix' get_charges m) = None) \<longrightarrow>
    parametrize mp ds forcefield suffix' get_charges =
      (None, ds\<lparr>mols := map (\<lambda>m. snd (mp forcefield suffix' get_charges m)) (mols ds)\<rparr>))
   \<and> (mols dsm = pre' @ molm # post'
      \<and> (\<forall>m \<in> set pre'. fst (mol_parametrize scorer label charges m) = None)
      \<and> fst (mol_parametrize scorer label charges molm) = Some e' \<longrightarrow>
    parametrize mol_parametrize dsm scorer label charges =
      (Some e', dsm\<lparr>mols := map (\<lambda>m. snd (mol_parametrize scorer label charges m)) pre'
                             @ molm # post'\<rparr>))"
proof -
  have a: "parametrize mp ds forcefield suffix' get_charges =
      (Some e, ds\<lparr>mols := map (\<lambda>m. snd (mp forcefield suffix' get_charges m)) pre @ mol' # post\<rparr>)"
    if "mols ds = pre @ mol # post" "\<forall>m \<in> set pre. fst (mp forcefield suffix' get_charges m) = None"
       "mp forcefield suffix' get_charges mol = (Some e, mol')"
    using that parametrize_loop_fail [of pre "mp forcefield suffix' get_charges" mol e mol' post "[]"]
    by (simp add: parametrize_def)
  have b: "parametrize mp ds forcefield suffix' get_charges =
      (None, ds\<lparr>mols := map (\<lambda>m. snd (mp forcefield suffix' get_charges m)) (mols ds)\<rparr>)"
    if "\<forall>m \<in> set (mols ds). fst (mp forcefield suffix' get_charges m) = None"
    using that parametrize_loop_ok [of "mols ds" "mp forcefield suffix' get_charges" "[]"]
    by (simp add: parametrize_def)
  have c: "parametrize mol_parametrize dsm scorer label charges =
      (Some e', dsm\<lparr>mols := map (\<lambda>m. snd (mol_parametrize scorer label charges m)) pre'
                             @ molm # post'\<rparr>)"
    if "mols dsm = pre' @ molm # post'"
       "\<forall>m \<in> set pre'. fst (mol_parametrize scorer label charges m) = None"
       "fst (mol_parametrize scorer label charges molm) = Some e'"
  proof -
    from that(3) mol_parametrize_atomic [of scorer label charges molm]
    have "mol_parametrize scorer label charges molm = (Some e', molm)"
      by (cases "mol_parametrize scorer label charges molm") simp
    with that(1,2) parametrize_loop_fail [of pre' "mol_parametrize scorer label charges" molm e' molm post' "[]"]
    show ?thesis
      by (simp add: parametrize_def)
  qed
  from a b c show ?thesis by blast
qed

text \<open>
  Three molecules, of which the second has no template: the first is labelled, the error
  is returned, the second and the third are as before.
\<close>

theorem parametrize_prefix_state_witness:
  "parametrize mol_parametrize \<lparr>mols = [scenario_B, no_template, scenario_A], info = False\<rparr>
     template_scorer ''_amber99sbildn'' None =
     (Some (OtherError ''no template''),
      \<lparr>mols =
         [\<lparr>elements = [8],
           conformations =
             [\<lparr>geometry = [(0, 0, 0)], energy = 0, force = [(0, 0, 0)],
               computed = [(''_amber99sbildn'', 1, [(0, 0, 0)])]\<rparr>,
              \<lparr>geometry = [(0, 0, 0)], energy = 200, force = [(0, 0, 0)],
               computed = [(''_amber99sbildn'', 1, [(0, 0, 0)])]\<rparr>]\<rparr>,
          no_template, scenario_A],
       info = False\<rparr>)"
  using parametrize_prefix_state [where dsm = "\<lparr>mols = [scenario_B, no_template, scenario_A], info = False\<rparr>"
      and pre' = "[scenario_B]" and molm = no_template and post' = "[scenario_A]"
      and scorer = template_scorer and label = "''_amber99sbildn''" and charges = None
      and e' = "OtherError ''no template''", THEN conjunct2, THEN conjunct2]
  by (simp add: mol_parametrize_def template_scorer_def scenario_B_def no_template_def
      conf_of_energy_def)

section \<open>The names of the archive files\<close>

lemma of_char_digit: "d < 10 \<Longrightarrow> of_char (digit_char d) = 48 + d"
  by (simp add: digit_char_def)

lemma digit_char_inj: "d < 10 \<Longrightarrow> d' < 10 \<Longrightarrow> digit_char d = digit_char d' \<Longrightarrow> d = d'"
  using of_char_digit [of d] of_char_digit [of d'] by (metis add_left_cancel)

lemma str_nat_nonempty: "str_nat n \<noteq> []"
  by (subst str_nat.simps) simp

lemma str_nat_inj: "str_nat n = str_nat m \<Longrightarrow> n = m"
proof (induction n arbitrary: m rule: str_nat.induct)
  case (1 n)
  show ?case
  proof (cases "n < 10")
    case True
    show ?thesis
    proof (cases "m < 10")
      case m: True
      from "1.prems" True m have "digit_char n = digit_char m"
        by (simp add: str_nat.simps [of n] str_nat.simps [of m])
      with True m show ?thesis by (blast intro: digit_char_inj)
    next
      case m: False
      from "1.prems" True m have "[digit_char n] = str_nat (m div 10) @ [digit_char (m mod 10)]"
        by (simp add: str_nat.simps [of n] str_nat.simps [of m])
      with str_nat_nonempty [of "m div 10"] show ?thesis by auto
    qed
  next
    case False
    show ?thesis
    proof (cases "m < 10")
      case m: True
      from "1.prems" False m have "str_nat (n div 10) @ [digit_char (n mod 10)] = [digit_char m]"
        by (simp add: str_nat.simps [of n] str_nat.simps [of m])
      with str_nat_nonempty [of "n div 10"] show ?thesis by auto
    next
      case m: False
      from "1.prems" False m have eq: "str_nat (n div 10) = str_nat (m div 10)"
          "digit_char (n mod 10) = digit_char (m mod 10)"
        by (simp_all add: str_nat.simps [of n] str_nat.simps [of m])
      from "1.IH" [OF False eq(1)] have "n div 10 = m div 10" .
      moreover from eq(2) have "n mod 10 = m mod 10"
        by (intro digit_char_inj) simp_all
      ultimately show ?thesis
        by (metis div_mult_mod_eq)
    qed
  qed
qed

lemma npz_name_inj: "npz_name i = npz_name j \<longleftrightarrow> i = j"
  by (auto simp: npz_name_def dest: str_nat_inj)

lemma append_le_append: "p @ xs \<le> p @ ys \<longleftrightarrow> xs \<le> (ys :: 'a :: linorder list)"
  by (induction p) simp_all

lemma update_fresh: "k \<notin> fst ` set al \<Longrightarrow> AList.update k v al = al @ [(k, v)]"
  by (induction al) auto


section \<open>Creating the directory\<close>

lemma map_of_append_fresh: "k \<notin> fst ` set ys \<Longrightarrow> map_of (xs @ ys) k = map_of xs k"
  using map_of_eq_None_iff [of ys k] by (auto simp: map_add_def split: option.splits)

lemma mkdir_exist_ok_creates:
  assumes "isdir (butlast p) fs" and "\<forall>c. map_of fs p \<noteq> Some (File c)"
  shows "\<exists>ds. mkdir_exist_ok p fs = (None, fs @ ds) \<and> fst ` set ds \<subseteq> {p} \<and> isdir p (fs @ ds)"
proof (cases "path_exists p fs")
  case True
  with assms(2) have "isdir p fs"
    by (cases "map_of fs p") (auto simp: path_exists_def isdir_def, metis node.exhaust)
  with True have "mkdir_exist_ok p fs = (None, fs @ [])"
    by (simp add: mkdir_exist_ok_def mkdir_def)
  with \<open>isdir p fs\<close> show ?thesis
    by (intro exI [of _ "[]"]) simp
next
  case False
  with assms(1) have "mkdir_exist_ok p fs = (None, fs @ [(p, Dir)])"
    by (simp add: mkdir_exist_ok_def mkdir_def)
  with False show ?thesis
    by (intro exI [of _ "[(p, Dir)]"]) (auto simp: isdir_def path_exists_def map_add_def)
qed

lemma makedirs_creates:
  "\<forall>q c. prefix q p \<longrightarrow> map_of fs q \<noteq> Some (File c) \<Longrightarrow>
   \<exists>ds. makedirs p fs = (None, fs @ ds) \<and> (\<forall>q \<in> fst ` set ds. prefix q p) \<and> isdir p (fs @ ds)"
proof (induction p fs rule: makedirs.induct)
  case (1 p fs)
  show ?case
  proof (cases "butlast p \<noteq> [] \<and> \<not> path_exists (butlast p) fs")
    case True
    have up: "prefix (butlast p) p"
      by (simp add: prefixeq_butlast)
    have "\<forall>q c. prefix q (butlast p) \<longrightarrow> map_of fs q \<noteq> Some (File c)"
      using "1.prems" up by (meson prefix_order.trans)
    from "1.IH" [OF True this] obtain ds1 where
      md: "makedirs (butlast p) fs = (None, fs @ ds1)" and
      keys: "\<forall>q \<in> fst ` set ds1. prefix q (butlast p)" and
      dir: "isdir (butlast p) (fs @ ds1)"
      by blast
    from True have "p \<noteq> []" by auto
    then have "\<not> prefix p (butlast p)"
      by (metis prefix_order.antisym up butlast_snoc append_butlast_last_id append_self_conv list.distinct(1))
    with keys have "p \<notin> fst ` set ds1" by blast
    then have "map_of (fs @ ds1) p = map_of fs p"
      by (rule map_of_append_fresh)
    with "1.prems" have "\<forall>c. map_of (fs @ ds1) p \<noteq> Some (File c)"
      by simp
    from mkdir_exist_ok_creates [OF dir this] obtain ds2 where
      mk: "mkdir_exist_ok p (fs @ ds1) = (None, (fs @ ds1) @ ds2)" and
      keys2: "fst ` set ds2 \<subseteq> {p}" and dir2: "isdir p ((fs @ ds1) @ ds2)"
      by blast
    from True md mk have "makedirs p fs = (None, fs @ (ds1 @ ds2))"
      by (simp add: makedirs.simps [of p fs])
    moreover from keys keys2 up have "\<forall>q \<in> fst ` set (ds1 @ ds2). prefix q p"
      by (auto intro: prefix_order.trans)
    moreover from dir2 have "isdir p (fs @ (ds1 @ ds2))"
      by simp
    ultimately show ?thesis by blast
  next
    case False
    have "isdir (butlast p) fs"
    proof (cases "butlast p = []")
      case True
      then show ?thesis by (simp add: isdir_def)
    next
      case nonroot: False
      with False have "path_exists (butlast p) fs" by simp
      moreover have "\<forall>c. map_of fs (butlast p) \<noteq> Some (File c)"
        using "1.prems" by (simp add: prefixeq_butlast)
      ultimately show ?thesis
        by (cases "map_of fs (butlast p)") (auto simp: path_exists_def isdir_def, metis node.exhaust)
    qed
    moreover have "\<forall>c. map_of fs p \<noteq> Some (File c)"
      using "1.prems" by simp
    ultimately obtain ds where
      mk: "mkdir_exist_ok p fs = (None, fs @ ds)" and
      keys: "fst ` set ds \<subseteq> {p}" and dir: "isdir p (fs @ ds)"
      using mkdir_exist_ok_creates by blast
    from False have "makedirs p fs = mkdir_exist_ok p fs"
      by (subst makedirs.simps) (rule if_not_P)
    with mk have "makedirs p fs = (None, fs @ ds)"
      by simp
    with keys dir show ?thesis by auto
  qed
qed


section \<open>Saving to a fresh path and loading in sorted order\<close>

lemma save_npz_loop_fresh:
  "isdir p fs \<Longrightarrow> \<forall>j \<ge> i. p @ [npz_name j] \<notin> fst ` set fs \<Longrightarrow>
   save_npz_loop cmp p i ms fs =
     (None, fs @ map (\<lambda>(j, m). (p @ [npz_name j], File (cmp m))) (enumerate i ms))"
proof (induction ms arbitrary: i fs)
  case Nil
  then show ?case by simp
next
  case (Cons m ms)
  let ?k = "p @ [npz_name i]"
  let ?fs = "fs @ [(?k, File (cmp m))]"
  from Cons.prems(2) have fresh: "?k \<notin> fst ` set fs" by simp
  then have "map_of fs ?k = None"
    by (simp add: map_of_eq_None_iff)
  then have "\<not> isdir ?k fs"
    by (simp add: isdir_def)
  with Cons.prems(1) fresh have w: "write_file ?k (cmp m) fs = Inr ?fs"
    by (simp add: write_file_def update_fresh)
  have "map_of ?fs p = map_of fs p"
    by (rule map_of_append_fresh) simp
  with Cons.prems(1) have d: "isdir p ?fs"
    by (simp add: isdir_def)
  have f: "\<forall>j \<ge> Suc i. p @ [npz_name j] \<notin> fst ` set ?fs"
    using Cons.prems(2) by (auto simp: npz_name_inj)
  from Cons.IH [OF d f] w show ?case
    by simp
qed

lemma saved_keys:
  "map fst (map (\<lambda>(j, m). (p @ [npz_name j], File (cmp m))) (enumerate i ms)) =
     map (\<lambda>j. p @ [npz_name j]) [i..<i + length ms]"
proof (induction ms arbitrary: i)
  case Nil
  then show ?case by simp
next
  case (Cons m ms)
  have "[i..<i + length (m # ms)] = i # [Suc i..<Suc i + length ms]"
    by (subst upt_rec) simp
  with Cons.IH [of "Suc i"] show ?case
    by simp
qed

lemma snoc_le_snoc: "p @ [a] \<le> p @ [b] \<longleftrightarrow> a \<le> (b :: 'a :: linorder)"
  by (induction p) auto

lemma rglob_npz_saved:
  assumes "\<forall>q \<in> fst ` set fs. \<not> strict_prefix p q"
  shows "rglob_npz p (fs @ map (\<lambda>(j, m). (p @ [npz_name j], File (cmp m))) (enumerate i ms)) =
     map (\<lambda>j. p @ [npz_name j]) [i..<i + length ms]"
proof -
  have old: "filter (\<lambda>q. strict_prefix p q \<and> suffix ''.npz'' (last q)) (map fst fs) = []"
    using assms by (auto simp: filter_empty_conv)
  note keys = saved_keys [of p cmp i ms]
  have new: "filter (\<lambda>q. strict_prefix p q \<and> suffix ''.npz'' (last q))
      (map (\<lambda>j. p @ [npz_name j]) [i..<i + length ms]) = map (\<lambda>j. p @ [npz_name j]) [i..<i + length ms]"
    by (rule filter_True) (auto simp: npz_name_def suffix_def strict_prefix_def)
  show ?thesis
    by (simp only: rglob_npz_def map_append filter_append old keys new append_Nil)
qed

lemma load_npz_loop_all:
  "\<forall>j \<in> set js. load_file ld fs (key j) = Inr (h j) \<Longrightarrow>
   load_npz_loop ld fs (map key js) ob = Inr (ob\<lparr>mols := mols ob @ map h js\<rparr>)"
  by (induction js arbitrary: ob) (simp_all add: append_def)

lemma saved_lookup:
  assumes "p @ [npz_name j] \<notin> fst ` set fs" and "j < length ms"
  shows "map_of (fs @ map (\<lambda>(j, m). (p @ [npz_name j], File (cmp m))) (enumerate 0 ms))
      (p @ [npz_name j]) = Some (File (cmp (ms ! j)))"
proof -
  let ?new = "map (\<lambda>(j, m). (p @ [npz_name j], File (cmp m))) (enumerate 0 ms)"
  have "map fst ?new = map (\<lambda>j. p @ [npz_name j]) [0..<length ms]"
    using saved_keys [of p cmp 0 ms] by simp
  moreover have "distinct (map (\<lambda>j. p @ [npz_name j]) [0..<length ms])"
    by (simp add: distinct_map inj_on_def npz_name_inj)
  ultimately have "distinct (map fst ?new)"
    by simp
  moreover from assms(2) have "(j, ms ! j) \<in> set (enumerate 0 ms)"
    by (simp add: in_set_enumerate_eq)
  then have "(p @ [npz_name j], File (cmp (ms ! j))) \<in> set ?new"
    by force
  ultimately have "map_of ?new (p @ [npz_name j]) = Some (File (cmp (ms ! j)))"
    by simp
  moreover from assms(1) have "map_of fs (p @ [npz_name j]) = None"
    by (simp add: map_of_eq_None_iff)
  ultimately show ?thesis
    by (simp add: map_add_def)
qed

lemma sort_npz_paths:
  "sort (map (\<lambda>j. p @ [npz_name j]) js) = map (\<lambda>j. p @ [npz_name j]) (sort_key npz_name js)"
proof (rule properties_for_sort)
  show "mset (map (\<lambda>j. p @ [npz_name j]) (sort_key npz_name js)) = mset (map (\<lambda>j. p @ [npz_name j]) js)"
    by simp
  have "sorted (map npz_name (sort_key npz_name js))"
    by (rule sorted_sort_key)
  then show "sorted (map (\<lambda>j. p @ [npz_name j]) (sort_key npz_name js))"
    by (simp add: sorted_map snoc_le_snoc)
qed

lemma save_then_load:
  assumes fresh: "fresh_path p fs" and rt: "\<forall>m \<in> set (mols ds). ld (cmp m) = Inr m"
  shows "\<exists>fs'. save_npz cmp ds p overwrite fs = (None, fs')
     \<and> load_npz ld p True fs' =
         Inr \<lparr>mols = map (nth (mols ds)) (sort_key npz_name [0..<length (mols ds)]), info = True\<rparr>"
proof -
  let ?ms = "mols ds"
  let ?key = "\<lambda>j. p @ [npz_name j]"
  let ?new = "map (\<lambda>(j, m). (p @ [npz_name j], File (cmp m))) (enumerate 0 ?ms)"
  let ?perm = "sort_key npz_name [0..<length ?ms]"
  from fresh have nonroot: "p \<noteq> []"
    and entries: "\<forall>(q, nd) \<in> set fs. \<not> prefix p q \<and> (prefix q p \<longrightarrow> nd = Dir)"
    by (simp_all add: fresh_path_def list_all_iff)
  from entries have absent: "\<forall>q \<in> fst ` set fs. \<not> prefix p q"
    by auto
  then have "p \<notin> fst ` set fs"
    by auto
  with nonroot have noexist: "\<not> path_exists p fs"
    by (simp add: path_exists_def map_of_eq_None_iff)
  have "\<forall>q c. prefix q p \<longrightarrow> map_of fs q \<noteq> Some (File c)"
    using entries by (auto dest!: map_of_SomeD)
  from makedirs_creates [OF this] obtain ds1 where
    md: "makedirs p fs = (None, fs @ ds1)" and
    keys: "\<forall>q \<in> fst ` set ds1. prefix q p" and dir: "isdir p (fs @ ds1)"
    by blast
  have below: "\<forall>q \<in> fst ` set (fs @ ds1). \<not> strict_prefix p q"
    using absent keys by (auto simp: strict_prefix_def)
  then have names: "\<forall>j \<ge> 0. ?key j \<notin> fst ` set (fs @ ds1)"
    by (metis strict_prefixI' append.right_neutral append_Cons append_Nil)
  from noexist md save_npz_loop_fresh [OF dir names, of cmp ?ms]
  have saved: "save_npz cmp ds p overwrite fs = (None, (fs @ ds1) @ ?new)"
    by (simp add: save_npz_def)
  have "rglob_npz p ((fs @ ds1) @ ?new) = map ?key [0..<length ?ms]"
    using rglob_npz_saved [OF below, of cmp 0 ?ms] by simp
  then have paths: "sort (rglob_npz p ((fs @ ds1) @ ?new)) = map ?key ?perm"
    by (simp add: sort_npz_paths)
  have "load_file ld ((fs @ ds1) @ ?new) (?key j) = Inr (?ms ! j)" if "j \<in> set ?perm" for j
  proof -
    from that have j: "j < length ?ms" by simp
    from names have "?key j \<notin> fst ` set (fs @ ds1)" by simp
    from saved_lookup [OF this j, of cmp] rt j show ?thesis
      by (simp add: load_file_def)
  qed
  then have "load_npz_loop ld ((fs @ ds1) @ ?new) (map ?key ?perm) init =
      Inr (init\<lparr>mols := mols init @ map (nth ?ms) ?perm\<rparr>)"
    by (intro load_npz_loop_all) simp
  with paths have "load_npz ld p True ((fs @ ds1) @ ?new) =
      Inr \<lparr>mols = map (nth ?ms) ?perm, info = True\<rparr>"
    by (simp add: load_npz_def init_def)
  with saved show ?thesis
    by blast
qed


lemma mset_map_nth_perm:
  "mset perm = mset [0..<length ms] \<Longrightarrow> mset (map (nth ms) perm) = mset ms"
proof -
  assume "mset perm = mset [0..<length ms]"
  then have "image_mset (nth ms) (mset perm) = image_mset (nth ms) (mset [0..<length ms])"
    by simp
  also have "\<dots> = mset (map (nth ms) [0..<length ms])"
    by simp
  also have "\<dots> = mset ms"
    by (simp only: map_nth)
  finally show ?thesis
    by simp
qed

lemma npz_name_10_2: "npz_name 10 < npz_name 2"
  by code_simp

lemma npz_order_not_identity:
  assumes "10 < n"
  shows "sort_key npz_name [0..<n] \<noteq> [0..<n]"
proof
  assume "sort_key npz_name [0..<n] = [0..<n]"
  with sorted_sort_key [of npz_name "[0..<n]"] have "sorted (map npz_name [0..<n])"
    by simp
  then have "map npz_name [0..<n] ! 2 \<le> map npz_name [0..<n] ! 10"
    using assms by (intro sorted_nth_mono) simp_all
  with assms have "npz_name 2 \<le> npz_name 10"
    by (simp add: numeral_2_eq_2)
  with npz_name_10_2 show False
    by simp
qed

section \<open>Saving to an existing path\<close>

text \<open>
  Claim C5. When the path exists and the overwrite flag is not set, \<^verbatim>\<open>save_npz\<close> raises
  \<^verbatim>\<open>FileExistsError\<close> and leaves the file system exactly as it was: no directory is made
  and no archive is written. The container is only an argument of \<^verbatim>\<open>save_npz\<close>, which never
  assigns to it.
\<close>

theorem save_npz_existing_path:
  "path_exists p fs \<Longrightarrow> \<not> overwrite \<Longrightarrow>
   save_npz cmp ds p overwrite fs = (Some FileExistsError, fs)"
  by (simp add: save_npz_def)

text \<open>A directory that already holds an archive: saving another container into it is refused.\<close>

theorem save_npz_existing_path_witness:
  "path_exists [''data''] [([''data''], Dir), ([''data'', ''0.npz''], File scenario_A)]
   \<and> save_npz compress \<lparr>mols = [scenario_B], info = True\<rparr> [''data''] False
       [([''data''], Dir), ([''data'', ''0.npz''], File scenario_A)] =
     (Some FileExistsError, [([''data''], Dir), ([''data'', ''0.npz''], File scenario_A)])"
proof -
  have ex: "path_exists [''data''] [([''data''], Dir), ([''data'', ''0.npz''], File scenario_A)]"
    by (simp add: path_exists_def)
  from save_npz_existing_path [OF ex, of False compress "\<lparr>mols = [scenario_B], info = True\<rparr>"] ex
  show ?thesis by simp
qed

section \<open>The round trip through the archives\<close>

lemma save_load_membership:
  assumes "fresh_path p fs" and "\<forall>m \<in> set (mols ds). ld (cmp m) = Inr m"
  shows "\<exists>fs' ds'. save_npz cmp ds p overwrite fs = (None, fs')
         \<and> load_npz ld p True fs' = Inr ds'
         \<and> len ds' = len ds
         \<and> mset (mols ds') = mset (mols ds)
         \<and> set (mols ds') = set (mols ds)"
proof -
  let ?perm = "sort_key npz_name [0..<length (mols ds)]"
  from save_then_load [OF assms, of overwrite] obtain fs' where
    s: "save_npz cmp ds p overwrite fs = (None, fs')" and
    l: "load_npz ld p True fs' = Inr \<lparr>mols = map (nth (mols ds)) ?perm, info = True\<rparr>"
    by blast
  have m: "mset (map (nth (mols ds)) ?perm) = mset (mols ds)"
    by (rule mset_map_nth_perm) simp
  then have "set (map (nth (mols ds)) ?perm) = set (mols ds)"
    by (rule mset_eq_setD)
  with s l m show ?thesis
    by (intro exI [of _ fs'] exI [of _ "\<lparr>mols = map (nth (mols ds)) ?perm, info = True\<rparr>"])
      (simp add: len_def)
qed

text \<open>
  Claim C4. If the path is fresh and every molecule of the container is reproduced by
  loading its archive, then \<^verbatim>\<open>save_npz\<close> succeeds and \<^verbatim>\<open>load_npz\<close> with \<^verbatim>\<open>keep_order=True\<close>
  returns a container with the same number of molecules and the same molecules, counted
  with multiplicity, though not necessarily in the same order. The archive of the
  specification reproduces every molecule record, with its element list, geometries,
  reference energies, reference forces and labels, so that with it the round trip needs
  only the fresh path.
\<close>

theorem save_load_npz_roundtrip:
  "(fresh_path p fs \<and> (\<forall>m \<in> set (mols ds). ld (cmp m) = Inr m) \<longrightarrow>
      (\<exists>fs' ds'. save_npz cmp ds p overwrite fs = (None, fs')
         \<and> load_npz ld p True fs' = Inr ds'
         \<and> len ds' = len ds
         \<and> mset (mols ds') = mset (mols ds)
         \<and> set (mols ds') = set (mols ds)))
   \<and> load (compress mol) = Inr mol
   \<and> (fresh_path p fs \<longrightarrow>
      (\<exists>fs' ds'. save_npz compress dsm p overwrite fs = (None, fs')
         \<and> load_npz load p True fs' = Inr ds'
         \<and> len ds' = len dsm
         \<and> mset (mols ds') = mset (mols dsm)))"
proof -
  have "load (compress mol) = Inr mol"
    by (simp add: load_def compress_def)
  moreover have "\<forall>m \<in> set (mols dsm). load (compress m) = Inr m"
    by (simp add: load_def compress_def)
  ultimately show ?thesis
    using save_load_membership [of p fs ds ld cmp overwrite]
      save_load_membership [of p fs dsm load compress overwrite] by blast
qed

section \<open>The order of loading\<close>

text \<open>
  Claim C10. The archive of the molecule at position \<open>i\<close> is named by the decimal digits of
  \<open>i\<close>, and ordered loading sorts these names as strings, where \<^verbatim>\<open>10.npz\<close> comes before
  \<^verbatim>\<open>2.npz\<close>. For a container of more than 10 molecules, saved to a fresh path with archives
  that reproduce its molecules, the molecule loaded at position \<open>k\<close> is the one saved at the
  \<open>k\<close>-th position of the sorted names; this sequence of positions is not the sequence
  0, 1, 2, ...; the loaded molecules are the saved ones, counted with multiplicity; and
  when the saved molecules are pairwise different the loaded list differs from the saved
  list.
\<close>

theorem load_npz_order_is_lexicographic:
  "fresh_path p fs \<Longrightarrow> \<forall>m \<in> set (mols ds). ld (cmp m) = Inr m \<Longrightarrow> 10 < len ds \<Longrightarrow>
   \<exists>fs' ds'. save_npz cmp ds p overwrite fs = (None, fs')
     \<and> load_npz ld p True fs' = Inr ds'
     \<and> mols ds' = map (nth (mols ds)) (sort_key npz_name [0..<len ds])
     \<and> sort_key npz_name [0..<len ds] \<noteq> [0..<len ds]
     \<and> npz_name 10 < npz_name 2
     \<and> mset (mols ds') = mset (mols ds)
     \<and> (distinct (mols ds) \<longrightarrow> mols ds' \<noteq> mols ds)"
proof -
  assume fresh: "fresh_path p fs" and rt: "\<forall>m \<in> set (mols ds). ld (cmp m) = Inr m"
    and many: "10 < len ds"
  let ?ms = "mols ds"
  let ?perm = "sort_key npz_name [0..<len ds]"
  from save_then_load [OF fresh rt, of overwrite] obtain fs' where
    s: "save_npz cmp ds p overwrite fs = (None, fs')" and
    l: "load_npz ld p True fs' = Inr \<lparr>mols = map (nth ?ms) ?perm, info = True\<rparr>"
    by (auto simp: len_def)
  have ne: "?perm \<noteq> [0..<len ds]"
    using many by (rule npz_order_not_identity)
  have m: "mset (map (nth ?ms) ?perm) = mset ?ms"
    by (rule mset_map_nth_perm) (simp add: len_def)
  have d: "map (nth ?ms) ?perm \<noteq> ?ms" if "distinct ?ms"
  proof
    assume "map (nth ?ms) ?perm = ?ms"
    then have "map (nth ?ms) ?perm = map (nth ?ms) [0..<len ds]"
      by (simp add: len_def map_nth)
    moreover from that have "inj_on (nth ?ms) (set ?perm \<union> set [0..<len ds])"
      by (intro inj_on_nth) (simp_all add: len_def)
    ultimately have "?perm = [0..<len ds]"
      by (simp only: inj_on_map_eq_map)
    with ne show False ..
  qed
  from s l ne m d npz_name_10_2 show ?thesis
    by (intro exI [of _ fs'] exI [of _ "\<lparr>mols = map (nth ?ms) ?perm, info = True\<rparr>"]) simp
qed

text \<open>The molecules of the scenarios A and B, saved into a new directory below an existing one.\<close>

theorem save_load_npz_roundtrip_witness:
  "fresh_path [''tmp'', ''d''] [([''tmp''], Dir :: molecule node)]
   \<and> (\<exists>fs' ds'. save_npz compress \<lparr>mols = [scenario_A, scenario_B], info = False\<rparr>
           [''tmp'', ''d''] False [([''tmp''], Dir)] = (None, fs')
         \<and> load_npz load [''tmp'', ''d''] True fs' = Inr ds'
         \<and> len ds' = 2
         \<and> mset (mols ds') = {#scenario_A, scenario_B#})"
proof -
  have fresh: "fresh_path [''tmp'', ''d''] [([''tmp''], Dir :: molecule node)]"
    by (simp add: fresh_path_def)
  from save_load_npz_roundtrip [where p = "[''tmp'', ''d'']" and fs = "[([''tmp''], Dir)]"
      and dsm = "\<lparr>mols = [scenario_A, scenario_B], info = False\<rparr>" and overwrite = False,
      THEN conjunct2, THEN conjunct2, rule_format, OF fresh]
  have "\<exists>fs' ds'. save_npz compress \<lparr>mols = [scenario_A, scenario_B], info = False\<rparr>
           [''tmp'', ''d''] False [([''tmp''], Dir)] = (None, fs')
         \<and> load_npz load [''tmp'', ''d''] True fs' = Inr ds'
         \<and> len ds' = 2
         \<and> mset (mols ds') = {#scenario_A, scenario_B#}"
    by (simp add: len_def numeral_2_eq_2)
  with fresh show ?thesis ..
qed

text \<open>Twelve molecules are loaded in the order 0, 1, 10, 11, 2, ..., 9 of their saved positions.\<close>

lemma npz_order_12: "sort_key npz_name [0..<12] = [0, 1, 10, 11, 2, 3, 4, 5, 6, 7, 8, 9]"
  by code_simp

theorem load_npz_order_is_lexicographic_witness:
  "10 < len twelve
   \<and> fresh_path [''tmp'', ''d''] ([] :: molecule filesystem)
   \<and> (\<exists>fs' ds'. save_npz compress twelve [''tmp'', ''d''] False [] = (None, fs')
         \<and> load_npz load [''tmp'', ''d''] True fs' = Inr ds'
         \<and> mols ds' = map (nth (mols twelve)) [0, 1, 10, 11, 2, 3, 4, 5, 6, 7, 8, 9]
         \<and> mols ds' \<noteq> mols twelve)"
proof -
  have many: "10 < len twelve"
    by (simp add: twelve_def len_def)
  have n: "len twelve = 12"
    by (simp add: twelve_def len_def)
  have fresh: "fresh_path [''tmp'', ''d''] ([] :: molecule filesystem)"
    by (simp add: fresh_path_def)
  have rt: "\<forall>m \<in> set (mols twelve). load (compress m) = Inr m"
    by (simp add: load_def compress_def)
  have dist: "distinct (mols twelve)"
    by (simp add: twelve_def distinct_map inj_on_def)
  from load_npz_order_is_lexicographic [where p = "[''tmp'', ''d'']" and fs = "[]"
      and ds = twelve and ld = load and cmp = compress and overwrite = False,
      OF fresh rt many] dist
  have "\<exists>fs' ds'. save_npz compress twelve [''tmp'', ''d''] False [] = (None, fs')
         \<and> load_npz load [''tmp'', ''d''] True fs' = Inr ds'
         \<and> mols ds' = map (nth (mols twelve)) [0, 1, 10, 11, 2, 3, 4, 5, 6, 7, 8, 9]
         \<and> mols ds' \<noteq> mols twelve"
    unfolding n npz_order_12 by blast
  with many fresh show ?thesis by blast
qed

end
